theory Spec2Isabelle
  imports Complex_Main
begin

section \<open>Numbers\<close>

text \<open>
  A JavaScript number is an IEEE double, and a field declared as a number can also hold
  \<^verbatim>\<open>undefined\<close>.  The chart of \<^verbatim>\<open>src/components/DonutChart.ts\<close> is therefore not
  embedded over the real numbers but over any type \<open>'n\<close> of number values with the
  operations that the source applies to them: the value of a numeric literal or of an
  index, the four arithmetic operations, the comparison \<^verbatim>\<open><=\<close> (\<^verbatim>\<open>a >= b\<close> is
  \<^verbatim>\<open>b <= a\<close>), cosine and sine, and the falsiness that \<^verbatim>\<open>||\<close> tests.  Nothing is
  assumed of these operations.  What is proved for every arithmetic holds for the doubles
  with their rounding, their infinities and NaN; equality of two number values means that
  they are the same value.
\<close>

record 'n arith =
  n_lit :: "real \<Rightarrow> 'n"
  n_add :: "'n \<Rightarrow> 'n \<Rightarrow> 'n"
  n_sub :: "'n \<Rightarrow> 'n \<Rightarrow> 'n"
  n_mul :: "'n \<Rightarrow> 'n \<Rightarrow> 'n"
  n_div :: "'n \<Rightarrow> 'n \<Rightarrow> 'n"
  n_le :: "'n \<Rightarrow> 'n \<Rightarrow> bool"
  n_cos :: "'n \<Rightarrow> 'n"
  n_sin :: "'n \<Rightarrow> 'n"
  n_falsy :: "'n \<Rightarrow> bool"

text \<open>Exact arithmetic on the real numbers, where a division by zero is not to be read.\<close>

definition exact :: "real arith" where
  "exact = \<lparr>n_lit = (\<lambda>x. x), n_add = (+), n_sub = (-), n_mul = (*), n_div = (/),
            n_le = (\<le>), n_cos = cos, n_sin = sin, n_falsy = (\<lambda>x. x = 0)\<rparr>"

text \<open>
  The arithmetic of the doubles on finite values of the normal range: every result is
  rounded to 53 significant bits, to the nearest value and to the even one of two nearest.
  Overflow, NaN, subnormal values and the sign of zero are not part of it; it is used only
  at inputs where none of them occurs.  Cosine and sine are taken as correctly rounded,
  which an engine need not provide; nothing below depends on their values.
\<close>

definition ulp :: "real \<Rightarrow> real" where
  "ulp x = 2 powr (of_int \<lfloor>log 2 \<bar>x\<bar>\<rfloor> - 52)"

definition round_to_double :: "real \<Rightarrow> real" where
  "round_to_double x =
     (if x = 0 then 0
      else (let q = x / ulp x; f = \<lfloor>q\<rfloor>
            in of_int (if q - of_int f < 1 / 2 then f
                       else if 1 / 2 < q - of_int f then f + 1
                       else if even f then f else f + 1) * ulp x))"

definition binary64 :: "real arith" where
  "binary64 =
     \<lparr>n_lit = round_to_double,
      n_add = (\<lambda>x y. round_to_double (x + y)),
      n_sub = (\<lambda>x y. round_to_double (x - y)),
      n_mul = (\<lambda>x y. round_to_double (x * y)),
      n_div = (\<lambda>x y. round_to_double (x / y)),
      n_le = (\<le>),
      n_cos = (\<lambda>x. round_to_double (cos x)),
      n_sin = (\<lambda>x. round_to_double (sin x)),
      n_falsy = (\<lambda>x. x = 0)\<rparr>"

section \<open>Data model of the donut chart\<close>

text \<open>
  The chart is a record of its fields together with the part of the PixiJS scene graph
  it touches.  Display objects (\<^verbatim>\<open>Container\<close>, \<^verbatim>\<open>Graphics\<close>, \<^verbatim>\<open>Text\<close>) are
  handles drawn from a counter, so that "the same instance" is equality of handles.
\<close>

type_synonym handle = nat

text \<open>
  An \<^verbatim>\<open>id\<close> has the type \<^verbatim>\<open>string | number | undefined\<close>.  Only its truthiness
  and the strict equality \<^verbatim>\<open>===\<close> are ever used, so NaN is kept as a value of its own:
  it is falsy and not equal to itself.
\<close>

datatype ident = Undefined | IdStr string | IdNum real | IdNaN

fun falsy :: "ident \<Rightarrow> bool" where
  "falsy Undefined = True"
| "falsy (IdStr s) = (s = [])"
| "falsy (IdNum n) = (n = 0)"
| "falsy IdNaN = True"

fun strict_eq :: "ident \<Rightarrow> ident \<Rightarrow> bool" where
  "strict_eq IdNaN b = False"
| "strict_eq a IdNaN = False"
| "strict_eq a b = (a = b)"

record 'n DonutChartData =
  d_value :: 'n
  d_color :: nat
  d_id :: ident

text \<open>
  An optional field is \<open>None\<close> when its key is absent and \<open>Some v\<close> when the key is
  present, whatever the value \<open>v\<close> is.
\<close>

record 'n DonutChartOptions =
  o_data :: "'n DonutChartData list"
  o_innerRadius :: 'n
  o_outerRadius :: 'n
  o_popDistance :: 'n
  o_width :: 'n
  o_height :: 'n
  o_startAngle :: "'n option"
  o_endAngle :: "'n option"
  o_euroValue :: "'n option"

record 'n SliceData =
  s_container :: handle
  s_value :: 'n
  s_startAngle :: 'n
  s_endAngle :: 'n
  s_id :: ident

text \<open>The items of the local array \<^verbatim>\<open>angleData\<close> of \<^verbatim>\<open>updateData\<close>.\<close>

record 'n AngleData =
  a_id :: ident
  a_value :: 'n
  a_color :: nat
  a_percentage :: 'n

text \<open>
  One entry of the GSAP timeline built by \<^verbatim>\<open>updateData\<close>: the animated object
  \<^verbatim>\<open>animProps\<close>, the target values, and the scheduling parameters handed to
  \<^verbatim>\<open>timeline.to\<close>.  The position is \<^verbatim>\<open>0\<close> for the first entry and
  \<^verbatim>\<open>"-=0.75"\<close> for the others.
\<close>

datatype 'n position = At 'n | BeforeEnd 'n

record 'n Tween =
  tw_container :: handle
  tw_animStart :: 'n
  tw_animEnd :: 'n
  tw_targetStart :: 'n
  tw_targetEnd :: 'n
  tw_color :: nat
  tw_duration :: 'n
  tw_delay :: 'n
  tw_position :: "'n position"

text \<open>
  The timeline together with what its \<^verbatim>\<open>onComplete\<close> closure captured.
\<close>

record 'n Timeline =
  t_newSlices :: "'n SliceData list"
  t_oldSlices :: "'n SliceData list"
  t_tweens :: "'n Tween list"

text \<open>
  The field \<open>graphics\<close> holds, for a \<^verbatim>\<open>Graphics\<close> object, the path and the colour
  that \<^verbatim>\<open>drawDonutSlice\<close> last gave it.
\<close>

record 'n DonutChart =
  options :: "'n DonutChartOptions"
  slices :: "'n SliceData list"
  chartContainer :: "handle option"
  valueText :: "handle option"
  animating :: bool
  timeline :: "'n Timeline option"
  parent :: "handle \<rightharpoonup> handle"
  graphics :: "handle \<rightharpoonup> ('n \<times> 'n) list \<times> nat"
  pointerdown :: "handle \<rightharpoonup> handle \<times> 'n"
  textOf :: "handle \<rightharpoonup> 'n"
  nextHandle :: handle

section \<open>The scene graph\<close>

text \<open>
  The stage of the application is the handle \<open>0\<close>.  \<open>newObject\<close> is \<^verbatim>\<open>new Container()\<close>,
  \<^verbatim>\<open>new Graphics()\<close> or \<^verbatim>\<open>new Text(...)\<close>.  Of the scene graph the model keeps
  the parent link of every display object: \<open>addChild\<close> sets it, \<open>removeChild\<close> clears it,
  and an object is attached to the chart when its parent is the chart container.  The
  \<^verbatim>\<open>Graphics\<close> of a slice is the only child of the slice's container, so a timeline
  entry is recorded against the container whose child it redraws.
\<close>

definition stage :: handle where
  "stage = 0"

definition newObject :: "'n DonutChart \<Rightarrow> handle \<times> 'n DonutChart" where
  "newObject c = (nextHandle c, c\<lparr>nextHandle := Suc (nextHandle c)\<rparr>)"

definition addChild :: "handle \<Rightarrow> handle \<Rightarrow> 'n DonutChart \<Rightarrow> 'n DonutChart" where
  "addChild p ch c = c\<lparr>parent := (parent c)(ch \<mapsto> p)\<rparr>"

definition removeChild :: "handle \<Rightarrow> handle \<Rightarrow> 'n DonutChart \<Rightarrow> 'n DonutChart" where
  "removeChild p ch c =
     (if parent c ch = Some p then c\<lparr>parent := (parent c)(ch := None)\<rparr> else c)"

section \<open>Identifiers\<close>

text \<open>The decimal digits of an index, as the template literal prints it.\<close>

fun decimal :: "nat \<Rightarrow> string" where
  "decimal n =
     (if n < 10 then [''0123456789'' ! n]
      else decimal (n div 10) @ [''0123456789'' ! (n mod 10)])"

declare decimal.simps [simp del]

text \<open>
  \<^verbatim>\<open>data.map((item, index) => ({...item, id: item.id || `slice-${index}`}))\<close>,
  as the constructor and \<^verbatim>\<open>updateData\<close> both write it.
\<close>

definition ensureId :: "nat \<times> 'n DonutChartData \<Rightarrow> 'n DonutChartData" where
  "ensureId p =
     (case p of (index, item) \<Rightarrow>
        item\<lparr>d_id := (if falsy (d_id item) then IdStr (''slice-'' @ decimal index)
                       else d_id item)\<rparr>)"

definition withIds :: "'n DonutChartData list \<Rightarrow> 'n DonutChartData list" where
  "withIds data = map ensureId (enumerate 0 data)"

section \<open>Drawing a slice\<close>

definition precision :: real where
  "precision = 3 / 100"

text \<open>
  The two \<^verbatim>\<open>for\<close> loops of \<^verbatim>\<open>drawDonutSlice\<close>, pushing onto \<open>points\<close>.  A loop
  ends when its step takes the angle past the bound.  Where the step leaves the angle as
  it is, the loop does not end: it pushes points for as long as the engine lets it, the
  function does not return, and the result is \<open>None\<close>.
\<close>

partial_function (option) outerArc ::
  "'n arith \<Rightarrow> 'n \<Rightarrow> 'n \<Rightarrow> 'n \<Rightarrow> ('n \<times> 'n) list \<Rightarrow> ('n \<times> 'n) list option" where
  "outerArc A outerRadius endAngle angle points =
     (if n_le A angle endAngle
      then outerArc A outerRadius endAngle (n_add A angle (n_lit A precision))
             (points @ [(n_mul A (n_cos A angle) outerRadius,
                         n_mul A (n_sin A angle) outerRadius)])
      else Some points)"

partial_function (option) innerArc ::
  "'n arith \<Rightarrow> 'n \<Rightarrow> 'n \<Rightarrow> 'n \<Rightarrow> ('n \<times> 'n) list \<Rightarrow> ('n \<times> 'n) list option" where
  "innerArc A innerRadius startAngle angle points =
     (if n_le A startAngle angle
      then innerArc A innerRadius startAngle (n_sub A angle (n_lit A precision))
             (points @ [(n_mul A (n_cos A angle) innerRadius,
                         n_mul A (n_sin A angle) innerRadius)])
      else Some points)"

text \<open>
  The point list that \<^verbatim>\<open>drawDonutSlice\<close> accumulates and then hands to the
  \<^verbatim>\<open>Graphics\<close> object with \<^verbatim>\<open>moveTo\<close> and \<^verbatim>\<open>lineTo\<close>.  The list is never
  empty, so \<^verbatim>\<open>points[0]\<close> is always there.
\<close>

definition drawDonutSlice :: "'n arith \<Rightarrow> 'n \<Rightarrow> 'n \<Rightarrow> 'n \<Rightarrow> 'n \<Rightarrow> ('n \<times> 'n) list option" where
  "drawDonutSlice A innerRadius outerRadius startAngle endAngle =
     (case outerArc A outerRadius endAngle startAngle [] of
        None \<Rightarrow> None
      | Some points \<Rightarrow>
          (let points = points @ [(n_mul A (n_cos A endAngle) outerRadius,
                                   n_mul A (n_sin A endAngle) outerRadius)]
           in case innerArc A innerRadius startAngle endAngle points of
                None \<Rightarrow> None
              | Some points \<Rightarrow>
                  Some (points @ [(n_mul A (n_cos A startAngle) innerRadius,
                                   n_mul A (n_sin A startAngle) innerRadius)])))"

text \<open>
  The area enclosed by a closed path of real points (shoelace formula), the measure by
  which a polygon is of zero area.
\<close>

fun shoelace :: "(real \<times> real) list \<Rightarrow> real" where
  "shoelace (p # q # ps) = (fst p * snd q - fst q * snd p) + shoelace (q # ps)"
| "shoelace ps = 0"

definition polygon_area :: "(real \<times> real) list \<Rightarrow> real" where
  "polygon_area ps = (case ps of [] \<Rightarrow> 0 | p # _ \<Rightarrow> \<bar>shoelace (ps @ [p])\<bar> / 2)"

section \<open>Construction\<close>

text \<open>\<^verbatim>\<open>data.reduce((sum, d) => sum + d.value, 0)\<close>\<close>

definition total_value :: "'n arith \<Rightarrow> 'n DonutChartData list \<Rightarrow> 'n" where
  "total_value A data = fold (\<lambda>d sum. n_add A sum (d_value d)) data (n_lit A 0)"

text \<open>
  The callback of the \<^verbatim>\<open>forEach\<close> of \<^verbatim>\<open>createChart\<close>; the local variable
  \<open>startAngle\<close> is threaded with the chart.  The callback draws the slice before it goes
  on: where \<^verbatim>\<open>drawDonutSlice\<close> does not return, neither does the callback.
\<close>

definition createChart_slice ::
  "'n arith \<Rightarrow> 'n \<Rightarrow> 'n \<Rightarrow> nat \<Rightarrow> 'n DonutChartData \<Rightarrow> 'n \<times> 'n DonutChart \<Rightarrow>
     ('n \<times> 'n DonutChart) option" where
  "createChart_slice A total' totalAngle index sliceData acc =
     (case acc of (startAngle, c) \<Rightarrow>
        (let sliceAngle = n_mul A (n_div A (d_value sliceData) total') totalAngle;
             endAngle = (if int index = int (length (o_data (options c))) - 1
                         then the (o_endAngle (options c))
                         else n_add A startAngle sliceAngle);
             midAngle = n_div A (n_add A startAngle endAngle) (n_lit A 2);
             (slice, c) = newObject c
         in case drawDonutSlice A (o_innerRadius (options c)) (o_outerRadius (options c))
                   startAngle endAngle of
              None \<Rightarrow> None
            | Some points \<Rightarrow>
                (let c = c\<lparr>graphics := (graphics c)(slice \<mapsto> (points, d_color sliceData))\<rparr>;
                     (sliceContainer, c) = newObject c;
                     c = addChild sliceContainer slice c;
                     c = (case chartContainer c of None \<Rightarrow> c
                          | Some cc \<Rightarrow> addChild cc sliceContainer c);
                     c = c\<lparr>slices := slices c @
                            [\<lparr>s_container = sliceContainer, s_value = d_value sliceData,
                              s_startAngle = startAngle, s_endAngle = endAngle,
                              s_id = d_id sliceData\<rparr>]\<rparr>;
                     c = c\<lparr>pointerdown :=
                             (pointerdown c)(slice \<mapsto> (sliceContainer, midAngle))\<rparr>
                 in Some (endAngle, c))))"

fun createChart_forEach ::
  "'n arith \<Rightarrow> 'n \<Rightarrow> 'n \<Rightarrow> nat \<Rightarrow> 'n DonutChartData list \<Rightarrow> 'n \<times> 'n DonutChart \<Rightarrow>
     ('n \<times> 'n DonutChart) option" where
  "createChart_forEach A total' totalAngle index [] acc = Some acc"
| "createChart_forEach A total' totalAngle index (sliceData # rest) acc =
     (case createChart_slice A total' totalAngle index sliceData acc of
        None \<Rightarrow> None
      | Some acc \<Rightarrow> createChart_forEach A total' totalAngle (Suc index) rest acc)"

definition createChart :: "'n arith \<Rightarrow> 'n DonutChart \<Rightarrow> 'n DonutChart option" where
  "createChart A c =
     (let (cc, c) = newObject c;
          c = c\<lparr>chartContainer := Some cc\<rparr>;
          c = addChild stage cc c;
          total' = total_value A (o_data (options c));
          startAngle = the (o_startAngle (options c));
          totalAngle = n_sub A (the (o_endAngle (options c))) (the (o_startAngle (options c)))
      in map_option snd
           (createChart_forEach A total' totalAngle 0 (o_data (options c)) (startAngle, c)))"

definition createEuroText :: "'n arith \<Rightarrow> 'n DonutChart \<Rightarrow> 'n DonutChart" where
  "createEuroText A c =
     (let (t, c) = newObject c;
          c = c\<lparr>textOf := (textOf c)(t \<mapsto> (case o_euroValue (options c) of
                                               None \<Rightarrow> n_lit A 0
                                             | Some v \<Rightarrow> if n_falsy A v then n_lit A 0 else v))\<rparr>;
          c = c\<lparr>valueText := Some t\<rparr>
      in addChild stage t c)"

text \<open>
  The constructor, on an application whose stage is empty.  The defaults of
  \<^verbatim>\<open>startAngle\<close>, \<^verbatim>\<open>endAngle\<close> and \<^verbatim>\<open>euroValue\<close> are overridden by the
  options whose keys are present.  The result is \<open>None\<close> where the constructor does not
  return.
\<close>

definition DonutChart_constructor ::
  "'n arith \<Rightarrow> 'n DonutChartOptions \<Rightarrow> 'n DonutChart option" where
  "DonutChart_constructor A opts =
     (let opts = opts\<lparr>
            o_startAngle := Some (case o_startAngle opts of None \<Rightarrow> n_lit A (- pi) | Some a \<Rightarrow> a),
            o_endAngle := Some (case o_endAngle opts of None \<Rightarrow> n_lit A 0 | Some a \<Rightarrow> a),
            o_euroValue := Some (case o_euroValue opts of None \<Rightarrow> n_lit A 0 | Some v \<Rightarrow> v)\<rparr>;
          opts = opts\<lparr>o_data := withIds (o_data opts)\<rparr>;
          c = \<lparr>options = opts, slices = [], chartContainer = None, valueText = None,
               animating = False, timeline = None, parent = Map.empty,
               graphics = Map.empty, pointerdown = Map.empty, textOf = Map.empty,
               nextHandle = Suc stage\<rparr>
      in map_option (createEuroText A) (createChart A c))"

definition updateEuroValue :: "'n \<Rightarrow> 'n DonutChart \<Rightarrow> 'n DonutChart" where
  "updateEuroValue v c =
     (let c = c\<lparr>options := (options c)\<lparr>o_euroValue := Some v\<rparr>\<rparr>
      in case valueText c of None \<Rightarrow> c
         | Some t \<Rightarrow> c\<lparr>textOf := (textOf c)(t \<mapsto> v)\<rparr>)"

section \<open>Updating the data\<close>

text \<open>
  The callback of the first \<^verbatim>\<open>forEach\<close> of \<^verbatim>\<open>updateData\<close>, over
  \<^verbatim>\<open>angleData\<close>; the local \<open>currentAngle\<close> and the array \<open>newSlices\<close> are threaded
  with the chart.  Nothing is drawn here: the timeline draws, frame by frame.
\<close>

definition updateData_slice ::
  "'n arith \<Rightarrow> 'n DonutChartData list \<Rightarrow> 'n SliceData list \<Rightarrow> int \<Rightarrow> 'n \<Rightarrow> nat \<Rightarrow>
     'n AngleData \<Rightarrow> 'n \<times> 'n SliceData list \<times> 'n DonutChart \<Rightarrow>
     'n \<times> 'n SliceData list \<times> 'n DonutChart" where
  "updateData_slice A data oldSlices lastIndex totalAngle index item acc =
     (case acc of (currentAngle, newSlices, c) \<Rightarrow>
        (let endAngle = (if int index = lastIndex
                         then the (o_endAngle (options c))
                         else n_add A currentAngle (n_mul A (a_percentage item) totalAngle));
             sliceData = find (\<lambda>d. strict_eq (d_id d) (a_id item)) data;
             existingSlice = find (\<lambda>slice. strict_eq (s_id slice) (a_id item)) oldSlices;
             (newSlices, c) =
               (case sliceData of
                  None \<Rightarrow> (newSlices, c)
                | Some sd \<Rightarrow>
                    (case existingSlice of
                       Some ex \<Rightarrow>
                         (newSlices @
                            [\<lparr>s_container = s_container ex, s_value = d_value sd,
                              s_startAngle = currentAngle, s_endAngle = endAngle,
                              s_id = a_id item\<rparr>], c)
                     | None \<Rightarrow>
                         (let (slice, c) = newObject c;
                              (sliceContainer, c) = newObject c;
                              c = addChild sliceContainer slice c;
                              c = (case chartContainer c of None \<Rightarrow> c
                                   | Some cc \<Rightarrow> addChild cc sliceContainer c);
                              midAngle = n_div A (n_add A currentAngle endAngle) (n_lit A 2);
                              c = c\<lparr>pointerdown :=
                                      (pointerdown c)(slice \<mapsto> (sliceContainer, midAngle))\<rparr>
                          in (newSlices @
                                [\<lparr>s_container = sliceContainer, s_value = d_value sd,
                                  s_startAngle = currentAngle, s_endAngle = endAngle,
                                  s_id = a_id item\<rparr>], c))))
         in (endAngle, newSlices, c)))"

fun updateData_forEach ::
  "'n arith \<Rightarrow> 'n DonutChartData list \<Rightarrow> 'n SliceData list \<Rightarrow> int \<Rightarrow> 'n \<Rightarrow> nat \<Rightarrow>
     'n AngleData list \<Rightarrow> 'n \<times> 'n SliceData list \<times> 'n DonutChart \<Rightarrow>
     'n \<times> 'n SliceData list \<times> 'n DonutChart" where
  "updateData_forEach A data oldSlices lastIndex totalAngle index [] acc = acc"
| "updateData_forEach A data oldSlices lastIndex totalAngle index (item # rest) acc =
     updateData_forEach A data oldSlices lastIndex totalAngle (Suc index) rest
       (updateData_slice A data oldSlices lastIndex totalAngle index item acc)"

text \<open>
  The second \<^verbatim>\<open>forEach\<close>: one timeline entry for every new slice.  A colour of
  \<open>0\<close> is falsy and is replaced by white, as a missing item would be.
\<close>

definition makeTween ::
  "'n arith \<Rightarrow> 'n DonutChartData list \<Rightarrow> 'n SliceData list \<Rightarrow> nat \<times> 'n SliceData \<Rightarrow> 'n Tween" where
  "makeTween A data oldSlices p =
     (case p of (index, newSlice) \<Rightarrow>
        (let oldSlice = find (\<lambda>slice. strict_eq (s_id slice) (s_id newSlice)) oldSlices;
             dataItem = find (\<lambda>item. strict_eq (d_id item) (s_id newSlice)) data;
             color = (case dataItem of None \<Rightarrow> 16777215
                      | Some d \<Rightarrow> if d_color d = 0 then 16777215 else d_color d)
         in \<lparr>tw_container = s_container newSlice,
             tw_animStart = (case oldSlice of Some old \<Rightarrow> s_startAngle old
                             | None \<Rightarrow> s_startAngle newSlice),
             tw_animEnd = (case oldSlice of Some old \<Rightarrow> s_endAngle old
                           | None \<Rightarrow> s_startAngle newSlice),
             tw_targetStart = s_startAngle newSlice,
             tw_targetEnd = s_endAngle newSlice,
             tw_color = color,
             tw_duration = n_lit A (8 / 10),
             tw_delay = n_mul A (n_lit A (real index)) (n_lit A (5 / 100)),
             tw_position = (if index = 0 then At (n_lit A 0)
                            else BeforeEnd (n_lit A (75 / 100)))\<rparr>))"

text \<open>
  \<^verbatim>\<open>updateData\<close>.  The call returns once the timeline is set up; the timeline then
  runs on the animation clock and ends by calling \<open>onComplete\<close>.
\<close>

definition updateData ::
  "'n arith \<Rightarrow> 'n DonutChartData list \<Rightarrow> 'n DonutChart \<Rightarrow> 'n DonutChart" where
  "updateData A newData c =
     (if animating c then c
      else
        (let c = c\<lparr>animating := True\<rparr>;
             data = withIds newData;
             oldSlices = slices c;
             total' = total_value A data;
             totalAngle = n_sub A (the (o_endAngle (options c))) (the (o_startAngle (options c)));
             angleData = map (\<lambda>item. \<lparr>a_id = d_id item, a_value = d_value item,
                                       a_color = d_color item,
                                       a_percentage = n_div A (d_value item) total'\<rparr>) data;
             currentAngle = the (o_startAngle (options c));
             lastIndex = int (length angleData) - 1;
             (currentAngle, newSlices, c) =
               updateData_forEach A data oldSlices lastIndex totalAngle 0 angleData
                 (currentAngle, [], c);
             c = c\<lparr>timeline := Some \<lparr>t_newSlices = newSlices, t_oldSlices = oldSlices,
                                      t_tweens = map (makeTween A data oldSlices)
                                                   (enumerate 0 newSlices)\<rparr>\<rparr>
         in c\<lparr>options := (options c)\<lparr>o_data := data\<rparr>\<rparr>))"

text \<open>The \<^verbatim>\<open>onComplete\<close> callback of the timeline, run when every entry has ended.\<close>

definition detachUnlessKept ::
  "'n SliceData list \<Rightarrow> 'n SliceData \<Rightarrow> 'n DonutChart \<Rightarrow> 'n DonutChart" where
  "detachUnlessKept newSlices oldSlice c =
     (if find (\<lambda>slice. strict_eq (s_id slice) (s_id oldSlice)) newSlices = None
      then (case parent c (s_container oldSlice) of None \<Rightarrow> c
            | Some p \<Rightarrow> removeChild p (s_container oldSlice) c)
      else c)"

definition onComplete :: "'n DonutChart \<Rightarrow> 'n DonutChart" where
  "onComplete c =
     (case timeline c of None \<Rightarrow> c
      | Some tline \<Rightarrow>
          (let c = c\<lparr>slices := t_newSlices tline\<rparr>;
               c = fold (detachUnlessKept (t_newSlices tline)) (t_oldSlices tline) c
           in c\<lparr>animating := False, timeline := None\<rparr>))"

section \<open>The chart over time\<close>

text \<open>
  What can happen to a chart between its construction and its teardown: a caller updates
  the data or the label, or the running timeline completes.  A frame of the running
  timeline redraws the \<^verbatim>\<open>Graphics\<close> of the new slices with \<^verbatim>\<open>drawDonutSlice\<close>
  and changes no other field of the chart, so it is not an event of its own; a timeline
  completes only when all its frames have returned.
\<close>

datatype 'n event = UpdateData "'n DonutChartData list" | UpdateEuroValue 'n | TimelineComplete

fun step :: "'n arith \<Rightarrow> 'n event \<Rightarrow> 'n DonutChart \<Rightarrow> 'n DonutChart" where
  "step A (UpdateData newData) c = updateData A newData c"
| "step A (UpdateEuroValue v) c = updateEuroValue v c"
| "step A TimelineComplete c = onComplete c"

definition run :: "'n arith \<Rightarrow> 'n event list \<Rightarrow> 'n DonutChart \<Rightarrow> 'n DonutChart" where
  "run A es c = fold (step A) es c"

text \<open>\<^verbatim>\<open>slices.find((slice) => slice.id === id)\<close>, the lookup of the registry.\<close>

definition findSlice :: "ident \<Rightarrow> 'n SliceData list \<Rightarrow> 'n SliceData option" where
  "findSlice i ss = find (\<lambda>slice. strict_eq (s_id slice) i) ss"

section \<open>Auxiliary notions for the proofs\<close>

text \<open>
  The angle bounds that the loops of \<^verbatim>\<open>createChart\<close> and \<^verbatim>\<open>updateData\<close>
  both compute, as a function of the shares \<open>ps\<close> alone: every segment starts where
  the one before ended, and the last one ends at \<open>E\<close>.  It is used to state what the two
  loops have in common; the loops themselves are the definitions above.
\<close>

fun angle_pairs :: "'n arith \<Rightarrow> 'n \<Rightarrow> 'n \<Rightarrow> 'n \<Rightarrow> 'n list \<Rightarrow> ('n \<times> 'n) list" where
  "angle_pairs A E T cur [] = []"
| "angle_pairs A E T cur (p # ps) =
     (let e = (if ps = [] then E else n_add A cur (n_mul A p T))
      in (cur, e) # angle_pairs A E T e ps)"

text \<open>
  Where the container of a new slice comes from: from the first old slice of the same id,
  or from the allocator, at or above the handle \<open>b\<close>.
\<close>

definition container_from ::
  "'n SliceData list \<Rightarrow> handle \<Rightarrow> 'n SliceData \<Rightarrow> bool" where
  "container_from old b n =
     (case find (\<lambda>slice. strict_eq (s_id slice) (s_id n)) old of
        Some ex \<Rightarrow> s_container n = s_container ex
      | None \<Rightarrow> b \<le> s_container n)"

text \<open>
  Well-formed charts: every container of the registry, and of the slices that a running
  timeline will commit, has been allocated, and slices that share a container share their
  id.  Every chart that the constructor builds is well-formed and every event keeps it so
  (\<open>wf_constructor\<close>, \<open>wf_run\<close> below).
\<close>

definition below :: "handle \<Rightarrow> 'n SliceData list \<Rightarrow> bool" where
  "below b ss = (\<forall>s\<in>set ss. s_container s < b)"

definition same_container_same_id :: "'n SliceData list \<Rightarrow> bool" where
  "same_container_same_id ss =
     (\<forall>s1\<in>set ss. \<forall>s2\<in>set ss. s_container s1 = s_container s2 \<longrightarrow> s_id s1 = s_id s2)"

definition wf_chart :: "'n DonutChart \<Rightarrow> bool" where
  "wf_chart c =
     (below (nextHandle c) (slices c) \<and> same_container_same_id (slices c) \<and>
      (case timeline c of None \<Rightarrow> True
       | Some tline \<Rightarrow> below (nextHandle c) (t_newSlices tline) \<and>
           same_container_same_id (t_newSlices tline)))"

text \<open>Names for the loop calls as \<^verbatim>\<open>updateData\<close> and the constructor make them.\<close>

abbreviation angleData_of :: "'n arith \<Rightarrow> 'n \<Rightarrow> 'n DonutChartData list \<Rightarrow> 'n AngleData list" where
  "angleData_of A total' data \<equiv>
     map (\<lambda>item. \<lparr>a_id = d_id item, a_value = d_value item, a_color = d_color item,
                    a_percentage = n_div A (d_value item) total'\<rparr>) data"

abbreviation updateData_loop ::
  "'n arith \<Rightarrow> 'n DonutChartData list \<Rightarrow> 'n DonutChart \<Rightarrow>
     'n \<times> 'n SliceData list \<times> 'n DonutChart" where
  "updateData_loop A newData c \<equiv>
     updateData_forEach A (withIds newData) (slices c) (int (length newData) - 1)
       (n_sub A (the (o_endAngle (options c))) (the (o_startAngle (options c)))) 0
       (angleData_of A (total_value A (withIds newData)) (withIds newData))
       (the (o_startAngle (options c)), [], c\<lparr>animating := True\<rparr>)"

abbreviation resolved :: "'n arith \<Rightarrow> 'n DonutChartOptions \<Rightarrow> 'n DonutChartOptions" where
  "resolved A opts \<equiv>
     opts\<lparr>o_startAngle := Some (case o_startAngle opts of None \<Rightarrow> n_lit A (- pi) | Some a \<Rightarrow> a),
          o_endAngle := Some (case o_endAngle opts of None \<Rightarrow> n_lit A 0 | Some a \<Rightarrow> a),
          o_euroValue := Some (case o_euroValue opts of None \<Rightarrow> n_lit A 0 | Some v \<Rightarrow> v),
          o_data := withIds (o_data opts)\<rparr>"

abbreviation blank :: "'n arith \<Rightarrow> 'n DonutChartOptions \<Rightarrow> 'n DonutChart" where
  "blank A opts \<equiv>
     \<lparr>options = resolved A opts, slices = [], chartContainer = Some (Suc stage), valueText = None,
      animating = False, timeline = None, parent = [Suc stage \<mapsto> stage],
      graphics = Map.empty, pointerdown = Map.empty, textOf = Map.empty,
      nextHandle = Suc (Suc stage)\<rparr>"

abbreviation createChart_loop ::
  "'n arith \<Rightarrow> 'n DonutChartOptions \<Rightarrow> ('n \<times> 'n DonutChart) option" where
  "createChart_loop A opts \<equiv>
     createChart_forEach A (total_value A (withIds (o_data opts)))
       (n_sub A (the (o_endAngle (resolved A opts))) (the (o_startAngle (resolved A opts)))) 0
       (withIds (o_data opts)) (the (o_startAngle (resolved A opts)), blank A opts)"

text \<open>
  The segments of the partition that the constructor computes for its options: the pairs
  of start and end angle that it hands to \<^verbatim>\<open>drawDonutSlice\<close>, one after the other.
\<close>

definition segments_of :: "'n arith \<Rightarrow> 'n DonutChartOptions \<Rightarrow> ('n \<times> 'n) list" where
  "segments_of A opts =
     angle_pairs A (the (o_endAngle (resolved A opts)))
       (n_sub A (the (o_endAngle (resolved A opts))) (the (o_startAngle (resolved A opts))))
       (the (o_startAngle (resolved A opts)))
       (map (\<lambda>d. n_div A (d_value d) (total_value A (o_data opts))) (o_data opts))"

text \<open>
  In exact arithmetic \<^verbatim>\<open>drawDonutSlice\<close> always returns (\<open>drawDonutSlice_exact\<close>
  below); \<open>exact_path\<close> names the path it returns.
\<close>

definition exact_path :: "real \<Rightarrow> real \<Rightarrow> real \<Rightarrow> real \<Rightarrow> (real \<times> real) list" where
  "exact_path innerRadius outerRadius startAngle endAngle =
     the (drawDonutSlice exact innerRadius outerRadius startAngle endAngle)"

section \<open>The partition property and the example charts\<close>

text \<open>
  What it means for the slices \<open>ss\<close> to partition the range from \<open>S\<close> to \<open>E\<close> as the
  code computes it from \<open>data\<close>: there is one slice for every item, in order and under
  the item's id; the first slice starts at \<open>S\<close> and every other slice starts at the very
  value that is the end of the slice before it; the end of a slice is its start plus its
  share \<open>value / total\<close> of the range \<open>E - S\<close>, except for the last slice, whose end is
  \<open>E\<close> itself and not a sum.
\<close>

definition partitions_range ::
  "'n arith \<Rightarrow> 'n \<Rightarrow> 'n \<Rightarrow> 'n DonutChartData list \<Rightarrow> 'n SliceData list \<Rightarrow> bool" where
  "partitions_range A S E data ss =
     (length ss = length data \<and>
      (\<forall>i<length data.
         s_id (ss ! i) = d_id (withIds data ! i) \<and>
         s_startAngle (ss ! i) = (if i = 0 then S else s_endAngle (ss ! (i - 1))) \<and>
         s_endAngle (ss ! i) =
           (if Suc i = length data then E
            else n_add A (s_startAngle (ss ! i))
                   (n_mul A (n_div A (d_value (data ! i)) (total_value A data))
                      (n_sub A E S)))))"

text \<open>
  The chart of the hosting page and of the scenario of the specification: a half donut
  from \<open>-\<pi>\<close> to \<open>0\<close> with the items \<open>a\<close> of value 30 and \<open>b\<close> of value 70, in exact
  arithmetic.
\<close>

definition scenario :: "real DonutChartOptions" where
  "scenario =
     \<lparr>o_data = [\<lparr>d_value = 30, d_color = 5195493, d_id = IdStr ''a''\<rparr>,
                \<lparr>d_value = 70, d_color = 9133302, d_id = IdStr ''b''\<rparr>],
      o_innerRadius = 100, o_outerRadius = 160, o_popDistance = 15,
      o_width = 600, o_height = 350,
      o_startAngle = Some (- pi), o_endAngle = Some 0, o_euroValue = None\<rparr>"

definition scenario_chart :: "real DonutChart" where
  "scenario_chart = the (DonutChart_constructor exact scenario)"

text \<open>
  Datasets for updates: one that keeps \<open>a\<close>, drops \<open>b\<close> and adds \<open>c\<close>; one whose first
  two ids are falsy; one that carries the id \<open>a\<close> twice; and one whose total is zero.
\<close>

definition update_data :: "real DonutChartData list" where
  "update_data = [\<lparr>d_value = 10, d_color = 5195493, d_id = IdStr ''a''\<rparr>,
                  \<lparr>d_value = 30, d_color = 12891645, d_id = IdStr ''c''\<rparr>]"

definition unkeyed_data :: "real DonutChartData list" where
  "unkeyed_data = [\<lparr>d_value = 1, d_color = 1, d_id = IdNum 0\<rparr>,
                   \<lparr>d_value = 2, d_color = 2, d_id = IdStr []\<rparr>,
                   \<lparr>d_value = 3, d_color = 3, d_id = IdStr ''x''\<rparr>]"

definition duplicate_data :: "real DonutChartData list" where
  "duplicate_data = [\<lparr>d_value = 10, d_color = 5195493, d_id = IdStr ''a''\<rparr>,
                     \<lparr>d_value = 30, d_color = 9133302, d_id = IdStr ''a''\<rparr>]"

definition zero_data :: "real DonutChartData list" where
  "zero_data = [\<lparr>d_value = 0, d_color = 5195493, d_id = IdStr ''a''\<rparr>]"

text \<open>
  A configuration whose inner radius exceeds its outer radius and whose start angle equals
  its end angle.
\<close>

definition degenerate_config :: "real DonutChartOptions" where
  "degenerate_config =
     scenario\<lparr>o_innerRadius := 160, o_outerRadius := 100,
              o_startAngle := Some 0, o_endAngle := Some 0\<rparr>"

section \<open>Identifiers and totals\<close>

lemma strict_eq_imp_eq: "strict_eq a b \<Longrightarrow> a = b"
  by (cases a; cases b) auto

lemma strict_eq_refl: "a \<noteq> IdNaN \<Longrightarrow> strict_eq a a"
  by (cases a) auto

lemma not_falsy_not_NaN: "\<not> falsy a \<Longrightarrow> a \<noteq> IdNaN"
  by (cases a) auto

lemma length_withIds: "length (withIds data) = length data"
  by (simp add: withIds_def)

lemma nth_withIds: "i < length data \<Longrightarrow> withIds data ! i = ensureId (i, data ! i)"
  by (simp add: withIds_def nth_enumerate_eq)

lemma d_value_ensureId: "d_value (ensureId (i, d)) = d_value d"
  by (simp add: ensureId_def)

lemma d_color_ensureId: "d_color (ensureId (i, d)) = d_color d"
  by (simp add: ensureId_def)

lemma not_falsy_ensureId: "\<not> falsy (d_id (ensureId (i, d)))"
  by (simp add: ensureId_def)

lemma values_enumerate: "map (\<lambda>p. d_value (ensureId p)) (enumerate n data) = map d_value data"
  by (induction data arbitrary: n) (simp_all add: d_value_ensureId)

lemma values_withIds: "map d_value (withIds data) = map d_value data"
  using values_enumerate [of 0 data] by (simp add: withIds_def comp_def)

lemma withIds_truthy: "d \<in> set (withIds data) \<Longrightarrow> \<not> falsy (d_id d)"
  by (auto simp: withIds_def not_falsy_ensureId)

lemma total_value_values:
  "total_value A data = fold (\<lambda>v sum. n_add A sum v) (map d_value data) (n_lit A 0)"
  by (simp add: total_value_def fold_map comp_def)

lemma total_withIds: "total_value A (withIds data) = total_value A data"
  by (simp add: total_value_values values_withIds)

lemma fold_total:
  "fold (\<lambda>d sum. sum + d_value d) data a = a + sum_list (map d_value data)"
  for a :: real
  by (induction data arbitrary: a) simp_all

lemma total_value_sum: "total_value exact data = sum_list (map d_value data)"
  by (simp add: total_value_def exact_def fold_total)

section \<open>The angle bounds\<close>

lemma length_angle_pairs: "length (angle_pairs A E T cur ps) = length ps"
  by (induction ps arbitrary: cur) (simp_all add: Let_def)

lemma angle_pairs_first: "ps \<noteq> [] \<Longrightarrow> fst (angle_pairs A E T cur ps ! 0) = cur"
  by (cases ps) (simp_all add: Let_def)

lemma angle_pairs_end:
  "i < length ps \<Longrightarrow>
     snd (angle_pairs A E T cur ps ! i) =
       (if Suc i = length ps then E
        else n_add A (fst (angle_pairs A E T cur ps ! i)) (n_mul A (ps ! i) T))"
proof (induction ps arbitrary: cur i)
  case Nil
  then show ?case by simp
next
  case (Cons p ps)
  show ?case
  proof (cases i)
    case 0
    then show ?thesis by (auto simp: Let_def)
  next
    case (Suc j)
    with Cons.prems have j: "j < length ps" by simp
    show ?thesis
      using Cons.IH [OF j] Suc by (simp add: Let_def)
  qed
qed

lemma angle_pairs_contiguous:
  "Suc i < length ps \<Longrightarrow>
     snd (angle_pairs A E T cur ps ! i) = fst (angle_pairs A E T cur ps ! Suc i)"
proof (induction ps arbitrary: cur i)
  case Nil
  then show ?case by simp
next
  case (Cons p ps)
  show ?case
  proof (cases i)
    case 0
    with Cons.prems obtain q qs where "ps = q # qs" by (cases ps) auto
    with 0 show ?thesis by (simp add: Let_def)
  next
    case (Suc j)
    with Cons.prems have j: "Suc j < length ps" by simp
    show ?thesis
      using Cons.IH [OF j] Suc by (simp add: Let_def)
  qed
qed

lemma angle_pairs_last:
  "ps \<noteq> [] \<Longrightarrow> snd (last (angle_pairs A E T cur ps)) = E"
proof -
  assume ne: "ps \<noteq> []"
  then have "angle_pairs A E T cur ps \<noteq> []"
    using length_angle_pairs [of A E T cur ps] by (metis length_0_conv)
  then have "last (angle_pairs A E T cur ps) = angle_pairs A E T cur ps ! (length ps - 1)"
    by (simp add: last_conv_nth length_angle_pairs)
  with ne angle_pairs_end [of "length ps - 1" ps A E T cur] show ?thesis
    by simp
qed

text \<open>In exact arithmetic the bounds are sums of shares, and the spans add up.\<close>

lemma angle_pairs_start:
  "i < length ps \<Longrightarrow> fst (angle_pairs exact E T cur ps ! i) = cur + sum_list (take i ps) * T"
proof (induction ps arbitrary: cur i)
  case Nil
  then show ?case by simp
next
  case (Cons p ps)
  show ?case
  proof (cases i)
    case 0
    then show ?thesis by (simp add: Let_def)
  next
    case (Suc j)
    with Cons.prems have j: "j < length ps" by simp
    then have ne: "ps \<noteq> []" by auto
    show ?thesis
      using Cons.IH [OF j, of "cur + p * T"] ne Suc
      by (simp add: Let_def exact_def algebra_simps)
  qed
qed

lemma angle_pairs_spans:
  "ps \<noteq> [] \<Longrightarrow> (\<Sum>(s, e)\<leftarrow>angle_pairs exact E T cur ps. e - s) = E - cur"
proof (induction ps arbitrary: cur)
  case Nil
  then show ?case by simp
next
  case (Cons p ps)
  show ?case
  proof (cases "ps = []")
    case True
    then show ?thesis by simp
  next
    case False
    with Cons.IH [OF False, of "n_add exact cur (n_mul exact p T)"] show ?thesis
      by (simp add: Let_def)
  qed
qed

section \<open>The loop of updateData\<close>

lemmas scene_defs = newObject_def addChild_def removeChild_def

lemma upd_slice_frame:
  "options (snd (snd (updateData_slice A data old li T index item acc))) = options (snd (snd acc)) \<and>
   slices (snd (snd (updateData_slice A data old li T index item acc))) = slices (snd (snd acc)) \<and>
   animating (snd (snd (updateData_slice A data old li T index item acc))) = animating (snd (snd acc)) \<and>
   timeline (snd (snd (updateData_slice A data old li T index item acc))) = timeline (snd (snd acc)) \<and>
   chartContainer (snd (snd (updateData_slice A data old li T index item acc))) = chartContainer (snd (snd acc)) \<and>
   valueText (snd (snd (updateData_slice A data old li T index item acc))) = valueText (snd (snd acc)) \<and>
   textOf (snd (snd (updateData_slice A data old li T index item acc))) = textOf (snd (snd acc))"
  by (cases acc) (simp add: updateData_slice_def Let_def scene_defs split: option.splits)

lemma upd_loop_frame:
  "options (snd (snd (updateData_forEach A data old li T index items acc))) = options (snd (snd acc)) \<and>
   slices (snd (snd (updateData_forEach A data old li T index items acc))) = slices (snd (snd acc)) \<and>
   animating (snd (snd (updateData_forEach A data old li T index items acc))) = animating (snd (snd acc)) \<and>
   timeline (snd (snd (updateData_forEach A data old li T index items acc))) = timeline (snd (snd acc)) \<and>
   chartContainer (snd (snd (updateData_forEach A data old li T index items acc))) = chartContainer (snd (snd acc)) \<and>
   valueText (snd (snd (updateData_forEach A data old li T index items acc))) = valueText (snd (snd acc)) \<and>
   textOf (snd (snd (updateData_forEach A data old li T index items acc))) = textOf (snd (snd acc))"
  by (induction items arbitrary: index acc) (simp_all add: upd_slice_frame)

lemma upd_slice_nextHandle:
  "nextHandle (snd (snd acc)) \<le> nextHandle (snd (snd (updateData_slice A data old li T index item acc)))"
  by (cases acc) (simp add: updateData_slice_def Let_def scene_defs split: option.splits)

lemma upd_loop_nextHandle:
  "nextHandle (snd (snd acc)) \<le> nextHandle (snd (snd (updateData_forEach A data old li T index items acc)))"
proof (induction items arbitrary: index acc)
  case Nil
  then show ?case by simp
next
  case (Cons item rest)
  show ?case
    by simp (rule order_trans [OF upd_slice_nextHandle Cons.IH])
qed

lemma upd_slice_parent:
  "h < nextHandle (snd (snd acc)) \<Longrightarrow>
     parent (snd (snd (updateData_slice A data old li T index item acc))) h = parent (snd (snd acc)) h"
  by (cases acc) (simp add: updateData_slice_def Let_def scene_defs split: option.splits)

lemma upd_loop_parent:
  "h < nextHandle (snd (snd acc)) \<Longrightarrow>
     parent (snd (snd (updateData_forEach A data old li T index items acc))) h = parent (snd (snd acc)) h"
proof (induction items arbitrary: index acc)
  case Nil
  then show ?case by simp
next
  case (Cons item rest)
  have "h < nextHandle (snd (snd (updateData_slice A data old li T index item acc)))"
    using Cons.prems upd_slice_nextHandle [where acc = acc and A = A and data = data and old = old and li = li and T = T and index = index and item = item] by simp
  from Cons.IH [OF this] show ?case
    by (simp add: upd_slice_parent [OF Cons.prems])
qed

lemma upd_slice_new:
  assumes "find (\<lambda>d. strict_eq (d_id d) (a_id item)) data = Some sd"
  shows "\<exists>h. fst (snd (updateData_slice A data old li T index item acc)) =
           fst (snd acc) @
             [\<lparr>s_container = h, s_value = d_value sd, s_startAngle = fst acc,
               s_endAngle = (if int index = li then the (o_endAngle (options (snd (snd acc))))
                             else n_add A (fst acc) (n_mul A (a_percentage item) T)),
               s_id = a_id item\<rparr>] \<and>
           (case find (\<lambda>slice. strict_eq (s_id slice) (a_id item)) old of
              Some ex \<Rightarrow> h = s_container ex
            | None \<Rightarrow> nextHandle (snd (snd acc)) \<le> h \<and>
                h < nextHandle (snd (snd (updateData_slice A data old li T index item acc))))"
  using assms
  by (cases acc) (simp add: updateData_slice_def Let_def scene_defs split: option.splits)

lemma upd_slice_cur:
  "fst (updateData_slice A data old li T index item acc) =
     (if int index = li then the (o_endAngle (options (snd (snd acc))))
      else n_add A (fst acc) (n_mul A (a_percentage item) T))"
  by (cases acc) (simp add: updateData_slice_def Let_def scene_defs split: option.splits prod.splits)

lemma upd_loop_new:
  assumes "\<forall>item\<in>set items. find (\<lambda>d. strict_eq (d_id d) (a_id item)) data \<noteq> None"
    and "li = int index + int (length items) - 1"
  shows "\<exists>new. fst (snd (updateData_forEach A data old li T index items acc)) = fst (snd acc) @ new \<and>
           map s_id new = map a_id items \<and>
           map s_value new =
             map (\<lambda>item. d_value (the (find (\<lambda>d. strict_eq (d_id d) (a_id item)) data))) items \<and>
           map (\<lambda>s. (s_startAngle s, s_endAngle s)) new =
             angle_pairs A (the (o_endAngle (options (snd (snd acc))))) T (fst acc)
               (map a_percentage items) \<and>
           (\<forall>n\<in>set new. container_from old (nextHandle (snd (snd acc))) n)"
  using assms
proof (induction items arbitrary: index acc)
  case Nil
  then show ?case by simp
next
  case (Cons item rest)
  let ?acc = "updateData_slice A data old li T index item acc"
  from Cons.prems(1) obtain sd where
    sd: "find (\<lambda>d. strict_eq (d_id d) (a_id item)) data = Some sd" by auto
  from upd_slice_new [OF sd, where old = old and li = li and T = T and index = index and acc = acc and A = A] obtain h where
    h: "fst (snd ?acc) = fst (snd acc) @
          [\<lparr>s_container = h, s_value = d_value sd, s_startAngle = fst acc,
            s_endAngle = (if int index = li then the (o_endAngle (options (snd (snd acc))))
                          else n_add A (fst acc) (n_mul A (a_percentage item) T)),
            s_id = a_id item\<rparr>]"
    and hc: "case find (\<lambda>slice. strict_eq (s_id slice) (a_id item)) old of
               Some ex \<Rightarrow> h = s_container ex
             | None \<Rightarrow> nextHandle (snd (snd acc)) \<le> h \<and> h < nextHandle (snd (snd ?acc))"
    by blast
  have last: "(int index = li) = (rest = [])"
    using Cons.prems(2) by auto
  have li: "li = int (Suc index) + int (length rest) - 1"
    using Cons.prems(2) by simp
  have found: "\<forall>item\<in>set rest. find (\<lambda>d. strict_eq (d_id d) (a_id item)) data \<noteq> None"
    using Cons.prems(1) by simp
  from Cons.IH [OF found li, where acc = ?acc] obtain new where
    new: "fst (snd (updateData_forEach A data old li T (Suc index) rest ?acc)) = fst (snd ?acc) @ new"
    and ids: "map s_id new = map a_id rest"
    and vals: "map s_value new =
             map (\<lambda>item. d_value (the (find (\<lambda>d. strict_eq (d_id d) (a_id item)) data))) rest"
    and angles: "map (\<lambda>s. (s_startAngle s, s_endAngle s)) new =
             angle_pairs A (the (o_endAngle (options (snd (snd ?acc))))) T (fst ?acc)
               (map a_percentage rest)"
    and conts: "\<forall>n\<in>set new. container_from old (nextHandle (snd (snd ?acc))) n"
    by blast
  let ?x = "\<lparr>s_container = h, s_value = d_value sd, s_startAngle = fst acc,
            s_endAngle = (if int index = li then the (o_endAngle (options (snd (snd acc))))
                          else n_add A (fst acc) (n_mul A (a_percentage item) T)),
            s_id = a_id item\<rparr>"
  have mono: "nextHandle (snd (snd acc)) \<le> nextHandle (snd (snd ?acc))"
    by (rule upd_slice_nextHandle)
  have 1: "fst (snd (updateData_forEach A data old li T index (item # rest) acc)) =
             fst (snd acc) @ (?x # new)"
    by (simp add: new h)
  have 2: "map s_id (?x # new) = map a_id (item # rest)"
    by (simp add: ids)
  have 3: "map s_value (?x # new) =
             map (\<lambda>item. d_value (the (find (\<lambda>d. strict_eq (d_id d) (a_id item)) data))) (item # rest)"
    by (simp add: vals sd)
  have 4: "map (\<lambda>s. (s_startAngle s, s_endAngle s)) (?x # new) =
             angle_pairs A (the (o_endAngle (options (snd (snd acc))))) T (fst acc)
               (map a_percentage (item # rest))"
    by (simp add: angles upd_slice_frame upd_slice_cur last Let_def)
  have 5: "container_from old (nextHandle (snd (snd acc))) ?x"
    using hc by (simp add: container_from_def split: option.splits)
  have 6: "\<forall>n\<in>set new. container_from old (nextHandle (snd (snd acc))) n"
    using conts mono by (auto simp: container_from_def split: option.splits)
  from 1 2 3 4 5 6 show ?case
    by (intro exI [of _ "?x # new"]) simp
qed

lemma below_mono: "below b ss \<Longrightarrow> b \<le> b' \<Longrightarrow> below b' ss"
  by (auto simp: below_def)

lemma below_snoc: "below b (ss @ [x]) = (below b ss \<and> s_container x < b)"
  by (auto simp: below_def)

lemma scsi_snoc_fresh:
  "same_container_same_id ss \<Longrightarrow> below b ss \<Longrightarrow> b \<le> s_container x \<Longrightarrow>
     same_container_same_id (ss @ [x])"
  unfolding same_container_same_id_def below_def
  by (metis Un_iff empty_iff insert_iff leD list.set(1) list.set(2) set_append)

lemma scsi_snoc_existing:
  "same_container_same_id ss \<Longrightarrow> ex \<in> set ss \<Longrightarrow> s_container x = s_container ex \<Longrightarrow>
     s_id x = s_id ex \<Longrightarrow> same_container_same_id (ss @ [x])"
  unfolding same_container_same_id_def
  by (metis Un_iff empty_iff insert_iff list.set(1) list.set(2) set_append)

lemma upd_slice_inv:
  assumes found: "find (\<lambda>d. strict_eq (d_id d) (a_id item)) data = Some sd"
    and bel: "below (nextHandle (snd (snd acc))) (old @ fst (snd acc))"
    and scsi: "same_container_same_id (old @ fst (snd acc))"
  shows "below (nextHandle (snd (snd (updateData_slice A data old li T index item acc))))
           (old @ fst (snd (updateData_slice A data old li T index item acc))) \<and>
         same_container_same_id (old @ fst (snd (updateData_slice A data old li T index item acc)))"
proof -
  let ?acc = "updateData_slice A data old li T index item acc"
  from upd_slice_new [OF found, where old = old and li = li and T = T and index = index and acc = acc and A = A] obtain h x where
    x: "x = \<lparr>s_container = h, s_value = d_value sd, s_startAngle = fst acc,
            s_endAngle = (if int index = li then the (o_endAngle (options (snd (snd acc))))
                          else n_add A (fst acc) (n_mul A (a_percentage item) T)),
            s_id = a_id item\<rparr>"
    and new: "fst (snd ?acc) = fst (snd acc) @ [x]"
    and hc: "case find (\<lambda>slice. strict_eq (s_id slice) (a_id item)) old of
               Some ex \<Rightarrow> h = s_container ex
             | None \<Rightarrow> nextHandle (snd (snd acc)) \<le> h \<and> h < nextHandle (snd (snd ?acc))"
    by blast
  have cont: "s_container x = h" and idx: "s_id x = a_id item"
    by (simp_all add: x)
  have mono: "nextHandle (snd (snd acc)) \<le> nextHandle (snd (snd ?acc))"
    by (rule upd_slice_nextHandle)
  have bel': "below (nextHandle (snd (snd ?acc))) (old @ fst (snd acc))"
    using bel mono by (rule below_mono)
  show ?thesis
  proof (cases "find (\<lambda>slice. strict_eq (s_id slice) (a_id item)) old")
    case None
    with hc have fresh: "nextHandle (snd (snd acc)) \<le> h" and lt: "h < nextHandle (snd (snd ?acc))"
      by simp_all
    from fresh have "nextHandle (snd (snd acc)) \<le> s_container x"
      by (simp add: cont)
    with scsi bel have "same_container_same_id ((old @ fst (snd acc)) @ [x])"
      by (rule scsi_snoc_fresh)
    moreover have "below (nextHandle (snd (snd ?acc))) ((old @ fst (snd acc)) @ [x])"
      unfolding below_snoc using bel' lt cont by simp
    ultimately show ?thesis by (simp add: new)
  next
    case (Some ex)
    then have mem: "ex \<in> set (old @ fst (snd acc))" and id: "s_id ex = a_id item"
      by (auto simp: find_Some_iff dest: strict_eq_imp_eq)
    from Some hc have h: "h = s_container ex" by simp
    have "same_container_same_id ((old @ fst (snd acc)) @ [x])"
      using scsi mem by (rule scsi_snoc_existing) (simp_all add: cont idx h id)
    moreover have "s_container ex < nextHandle (snd (snd ?acc))"
      using bel' mem by (simp add: below_def)
    then have "below (nextHandle (snd (snd ?acc))) ((old @ fst (snd acc)) @ [x])"
      unfolding below_snoc using bel' cont h by simp
    ultimately show ?thesis by (simp add: new)
  qed
qed

lemma upd_loop_inv:
  assumes "\<forall>item\<in>set items. find (\<lambda>d. strict_eq (d_id d) (a_id item)) data \<noteq> None"
    and "below (nextHandle (snd (snd acc))) (old @ fst (snd acc))"
    and "same_container_same_id (old @ fst (snd acc))"
  shows "below (nextHandle (snd (snd (updateData_forEach A data old li T index items acc))))
           (old @ fst (snd (updateData_forEach A data old li T index items acc))) \<and>
         same_container_same_id (old @ fst (snd (updateData_forEach A data old li T index items acc)))"
  using assms
proof (induction items arbitrary: index acc)
  case Nil
  then show ?case by simp
next
  case (Cons item rest)
  from Cons.prems(1) obtain sd where
    sd: "find (\<lambda>d. strict_eq (d_id d) (a_id item)) data = Some sd" by auto
  have found: "\<forall>item\<in>set rest. find (\<lambda>d. strict_eq (d_id d) (a_id item)) data \<noteq> None"
    using Cons.prems(1) by simp
  from upd_slice_inv [OF sd Cons.prems(2) Cons.prems(3), where li = li and T = T and index = index and A = A]
  show ?case
    using Cons.IH [OF found] by simp
qed

section \<open>An accepted update\<close>

lemma updateData_idle:
  assumes "\<not> animating c"
  shows "updateData A newData c =
           (snd (snd (updateData_loop A newData c)))
             \<lparr>timeline := Some \<lparr>t_newSlices = fst (snd (updateData_loop A newData c)),
                                t_oldSlices = slices c,
                                t_tweens = map (makeTween A (withIds newData) (slices c))
                                  (enumerate 0 (fst (snd (updateData_loop A newData c))))\<rparr>,
               options := (options c)\<lparr>o_data := withIds newData\<rparr>\<rparr>"
  using assms
  by (simp add: updateData_def Let_def case_prod_beta length_withIds upd_loop_frame)

lemma found_withIds:
  "\<forall>item\<in>set (angleData_of A t (withIds newData)).
      find (\<lambda>d. strict_eq (d_id d) (a_id item)) (withIds newData) \<noteq> None"
proof
  fix item
  assume "item \<in> set (angleData_of A t (withIds newData))"
  then obtain d where d: "d \<in> set (withIds newData)" and id: "a_id item = d_id d"
    by auto
  from d have "strict_eq (d_id d) (d_id d)"
    by (intro strict_eq_refl not_falsy_not_NaN withIds_truthy)
  with d id show "find (\<lambda>d. strict_eq (d_id d) (a_id item)) (withIds newData) \<noteq> None"
    by (auto simp: find_None_iff)
qed

lemma updateData_frame:
  assumes "\<not> animating c"
  shows "slices (updateData A newData c) = slices c"
    and "animating (updateData A newData c)"
    and "options (updateData A newData c) = (options c)\<lparr>o_data := withIds newData\<rparr>"
    and "chartContainer (updateData A newData c) = chartContainer c"
    and "valueText (updateData A newData c) = valueText c"
    and "textOf (updateData A newData c) = textOf c"
    and "nextHandle c \<le> nextHandle (updateData A newData c)"
    and "h < nextHandle c \<Longrightarrow> parent (updateData A newData c) h = parent c h"
proof -
  note idle = updateData_idle [OF assms, where newData = newData and A = A]
  show "slices (updateData A newData c) = slices c"
    and "animating (updateData A newData c)"
    and "options (updateData A newData c) = (options c)\<lparr>o_data := withIds newData\<rparr>"
    and "chartContainer (updateData A newData c) = chartContainer c"
    and "valueText (updateData A newData c) = valueText c"
    and "textOf (updateData A newData c) = textOf c"
    by (simp_all add: idle upd_loop_frame)
  show "nextHandle c \<le> nextHandle (updateData A newData c)"
    using upd_loop_nextHandle [where acc = "(the (o_startAngle (options c)), [], c\<lparr>animating := True\<rparr>)" and A = A]
    by (simp add: idle)
  show "h < nextHandle c \<Longrightarrow> parent (updateData A newData c) h = parent c h"
    using upd_loop_parent [where h = h and acc = "(the (o_startAngle (options c)), [], c\<lparr>animating := True\<rparr>)" and A = A]
    by (simp add: idle)
qed

lemma updateData_accepted:
  assumes "\<not> animating c"
  shows "\<exists>new. timeline (updateData A newData c) =
             Some \<lparr>t_newSlices = new, t_oldSlices = slices c,
                   t_tweens = map (makeTween A (withIds newData) (slices c)) (enumerate 0 new)\<rparr> \<and>
           map s_id new = map d_id (withIds newData) \<and>
           map s_value new =
             map (\<lambda>d. d_value (the (find (\<lambda>d'. strict_eq (d_id d') (d_id d)) (withIds newData))))
               (withIds newData) \<and>
           map (\<lambda>s. (s_startAngle s, s_endAngle s)) new =
             angle_pairs A (the (o_endAngle (options c)))
               (n_sub A (the (o_endAngle (options c))) (the (o_startAngle (options c))))
               (the (o_startAngle (options c)))
               (map (\<lambda>d. n_div A (d_value d) (total_value A newData)) newData) \<and>
           (\<forall>n\<in>set new. container_from (slices c) (nextHandle c) n) \<and>
           (below (nextHandle c) (slices c) \<longrightarrow> same_container_same_id (slices c) \<longrightarrow>
              below (nextHandle (updateData A newData c)) (slices c @ new) \<and>
              same_container_same_id (slices c @ new))"
proof -
  note idle = updateData_idle [OF assms, where newData = newData and A = A]
  let ?acc = "(the (o_startAngle (options c)), [], c\<lparr>animating := True\<rparr>)"
  have li: "int (length newData) - 1 =
              int 0 + int (length (angleData_of A (total_value A (withIds newData)) (withIds newData))) - 1"
    by (simp add: length_withIds)
  from upd_loop_new [OF found_withIds li, where old = "slices c" and acc = ?acc]
  obtain new where
    new: "fst (snd (updateData_loop A newData c)) = new"
    and ids: "map s_id new = map a_id (angleData_of A (total_value A (withIds newData)) (withIds newData))"
    and vals: "map s_value new =
        map (\<lambda>item. d_value (the (find (\<lambda>d. strict_eq (d_id d) (a_id item)) (withIds newData))))
          (angleData_of A (total_value A (withIds newData)) (withIds newData))"
    and angles: "map (\<lambda>s. (s_startAngle s, s_endAngle s)) new =
        angle_pairs A (the (o_endAngle (options c)))
          (n_sub A (the (o_endAngle (options c))) (the (o_startAngle (options c))))
          (the (o_startAngle (options c)))
          (map a_percentage (angleData_of A (total_value A (withIds newData)) (withIds newData)))"
    and conts: "\<forall>n\<in>set new. container_from (slices c) (nextHandle c) n"
    by auto
  have percents: "map a_percentage (angleData_of A (total_value A (withIds newData)) (withIds newData)) =
          map (\<lambda>d. n_div A (d_value d) (total_value A newData)) newData"
    using values_withIds [of newData]
    by (simp add: total_withIds list_eq_iff_nth_eq length_withIds nth_withIds d_value_ensureId)
  have 1: "timeline (updateData A newData c) =
             Some \<lparr>t_newSlices = new, t_oldSlices = slices c,
                   t_tweens = map (makeTween A (withIds newData) (slices c)) (enumerate 0 new)\<rparr>"
    by (simp add: idle new)
  have 2: "map s_id new = map d_id (withIds newData)"
    by (simp add: ids comp_def)
  have 3: "map s_value new =
             map (\<lambda>d. d_value (the (find (\<lambda>d'. strict_eq (d_id d') (d_id d)) (withIds newData))))
               (withIds newData)"
    by (simp add: vals comp_def)
  have 4: "below (nextHandle c) (slices c) \<longrightarrow> same_container_same_id (slices c) \<longrightarrow>
              below (nextHandle (updateData A newData c)) (slices c @ new) \<and>
              same_container_same_id (slices c @ new)"
  proof (intro impI)
    assume "below (nextHandle c) (slices c)" and "same_container_same_id (slices c)"
    then have "below (nextHandle (snd (snd ?acc))) (slices c @ fst (snd ?acc))"
      and "same_container_same_id (slices c @ fst (snd ?acc))"
      by simp_all
    from upd_loop_inv [OF found_withIds [where t = "total_value A (withIds newData)" and newData = newData and A = A] this,
        where li = "int (length newData) - 1" and index = 0 and A = A
          and T = "n_sub A (the (o_endAngle (options c))) (the (o_startAngle (options c)))"]
    show "below (nextHandle (updateData A newData c)) (slices c @ new) \<and>
              same_container_same_id (slices c @ new)"
      by (simp add: idle new)
  qed
  from 1 2 3 4 angles conts show ?thesis
    unfolding percents by blast
qed

section \<open>Drawing in exact arithmetic\<close>

lemma exact_simps [simp]:
  "n_lit exact x = x"
  "n_add exact x y = x + y"
  "n_sub exact x y = x - y"
  "n_mul exact x y = x * y"
  "n_div exact x y = x / y"
  "n_le exact x y = (x \<le> y)"
  "n_cos exact x = cos x"
  "n_sin exact x = sin x"
  "n_falsy exact x = (x = 0)"
  by (simp_all add: exact_def)

lemma outerArc_exact: "\<exists>ps. outerArc exact R e a pts = Some ps"
proof (induction "nat (\<lfloor>(e - a) / precision\<rfloor> + 1)" arbitrary: a pts rule: less_induct)
  case less
  show ?case
  proof (cases "a \<le> e")
    case False
    then show ?thesis
      by (subst outerArc.simps) simp
  next
    case True
    have step: "(e - (a + precision)) / precision = (e - a) / precision - 1"
      by (simp add: precision_def field_simps)
    have "0 \<le> (e - a) / precision"
      using True by (simp add: precision_def)
    then have "0 \<le> \<lfloor>(e - a) / precision\<rfloor>"
      by simp
    then have "nat (\<lfloor>(e - (a + precision)) / precision\<rfloor> + 1) < nat (\<lfloor>(e - a) / precision\<rfloor> + 1)"
      by (simp add: step)
    from less [OF this] obtain ps where
      "outerArc exact R e (a + precision) (pts @ [(cos a * R, sin a * R)]) = Some ps"
      by blast
    with True show ?thesis
      by (subst outerArc.simps) simp
  qed
qed

lemma innerArc_exact: "\<exists>ps. innerArc exact r s a pts = Some ps"
proof (induction "nat (\<lfloor>(a - s) / precision\<rfloor> + 1)" arbitrary: a pts rule: less_induct)
  case less
  show ?case
  proof (cases "s \<le> a")
    case False
    then show ?thesis
      by (subst innerArc.simps) simp
  next
    case True
    have step: "(a - precision - s) / precision = (a - s) / precision - 1"
      by (simp add: precision_def field_simps)
    have "0 \<le> (a - s) / precision"
      using True by (simp add: precision_def)
    then have "0 \<le> \<lfloor>(a - s) / precision\<rfloor>"
      by simp
    then have "nat (\<lfloor>(a - precision - s) / precision\<rfloor> + 1) < nat (\<lfloor>(a - s) / precision\<rfloor> + 1)"
      by (simp add: step)
    from less [OF this] obtain ps where
      "innerArc exact r s (a - precision) (pts @ [(cos a * r, sin a * r)]) = Some ps"
      by blast
    with True show ?thesis
      by (subst innerArc.simps) simp
  qed
qed

lemma drawDonutSlice_exact: "drawDonutSlice exact r R s e = Some (exact_path r R s e)"
proof -
  obtain ps where 1: "outerArc exact R e s [] = Some ps"
    using outerArc_exact by blast
  obtain qs where 2: "innerArc exact r s e (ps @ [(cos e * R, sin e * R)]) = Some qs"
    using innerArc_exact by blast
  from 1 2 show ?thesis
    by (simp add: exact_path_def drawDonutSlice_def)
qed

section \<open>The loop of createChart and the constructor\<close>

lemma create_slice_Some:
  assumes "createChart_slice A t T index d acc = Some acc'"
  shows "options (snd acc') = options (snd acc)"
    and "animating (snd acc') = animating (snd acc)"
    and "timeline (snd acc') = timeline (snd acc)"
    and "chartContainer (snd acc') = chartContainer (snd acc)"
    and "valueText (snd acc') = valueText (snd acc)"
    and "textOf (snd acc') = textOf (snd acc)"
    and "nextHandle (snd acc') = Suc (Suc (nextHandle (snd acc)))"
    and "fst acc' =
      (if int index = int (length (o_data (options (snd acc)))) - 1
       then the (o_endAngle (options (snd acc)))
       else n_add A (fst acc) (n_mul A (n_div A (d_value d) t) T))"
    and "slices (snd acc') =
      slices (snd acc) @
       [\<lparr>s_container = Suc (nextHandle (snd acc)), s_value = d_value d,
         s_startAngle = fst acc,
         s_endAngle = (if int index = int (length (o_data (options (snd acc)))) - 1
                       then the (o_endAngle (options (snd acc)))
                       else n_add A (fst acc) (n_mul A (n_div A (d_value d) t) T)),
         s_id = d_id d\<rparr>]"
  using assms
  by (cases acc; auto simp: createChart_slice_def Let_def scene_defs split: option.splits)+

lemma create_slice_parent:
  assumes "createChart_slice A t T index d acc = Some acc'" and "h < nextHandle (snd acc)"
  shows "parent (snd acc') h = parent (snd acc) h"
  using assms
  by (cases acc) (auto simp: createChart_slice_def Let_def scene_defs split: option.splits)

lemma create_slice_returns:
  assumes "drawDonutSlice A (o_innerRadius (options (snd acc))) (o_outerRadius (options (snd acc)))
             (fst acc)
             (if int index = int (length (o_data (options (snd acc)))) - 1
              then the (o_endAngle (options (snd acc)))
              else n_add A (fst acc) (n_mul A (n_div A (d_value d) t) T)) \<noteq> None"
  shows "\<exists>acc'. createChart_slice A t T index d acc = Some acc'"
proof (cases acc)
  case (Pair a c)
  with assms show ?thesis
    by (cases "int index = int (length (o_data (options c))) - 1")
       (auto simp: createChart_slice_def Let_def scene_defs)
qed

lemma create_loop_frame:
  assumes "createChart_forEach A t T index items acc = Some acc'"
  shows "options (snd acc') = options (snd acc) \<and>
         animating (snd acc') = animating (snd acc) \<and>
         timeline (snd acc') = timeline (snd acc) \<and>
         chartContainer (snd acc') = chartContainer (snd acc) \<and>
         valueText (snd acc') = valueText (snd acc) \<and>
         textOf (snd acc') = textOf (snd acc) \<and>
         nextHandle (snd acc') = nextHandle (snd acc) + 2 * length items"
  using assms
proof (induction items arbitrary: index acc)
  case Nil
  then show ?case by simp
next
  case (Cons d rest)
  from Cons.prems obtain acc1 where
    1: "createChart_slice A t T index d acc = Some acc1"
    and 2: "createChart_forEach A t T (Suc index) rest acc1 = Some acc'"
    by (auto split: option.splits)
  from Cons.IH [OF 2] create_slice_Some [OF 1] show ?case
    by simp
qed

lemma create_loop_parent:
  assumes "createChart_forEach A t T index items acc = Some acc'" and "h < nextHandle (snd acc)"
  shows "parent (snd acc') h = parent (snd acc) h"
  using assms
proof (induction items arbitrary: index acc)
  case Nil
  then show ?case by simp
next
  case (Cons d rest)
  from Cons.prems(1) obtain acc1 where
    1: "createChart_slice A t T index d acc = Some acc1"
    and 2: "createChart_forEach A t T (Suc index) rest acc1 = Some acc'"
    by (auto split: option.splits)
  have "h < nextHandle (snd acc1)"
    using Cons.prems(2) create_slice_Some(7) [OF 1] by simp
  from Cons.IH [OF 2 this] create_slice_parent [OF 1 Cons.prems(2)] show ?case
    by simp
qed

lemma create_loop_new:
  assumes "createChart_forEach A t T index items acc = Some acc'"
    and "int (length (o_data (options (snd acc)))) - 1 = int index + int (length items) - 1"
  shows "\<exists>new. slices (snd acc') = slices (snd acc) @ new \<and>
           map s_id new = map d_id items \<and>
           map s_value new = map d_value items \<and>
           map (\<lambda>s. (s_startAngle s, s_endAngle s)) new =
             angle_pairs A (the (o_endAngle (options (snd acc)))) T (fst acc)
               (map (\<lambda>d. n_div A (d_value d) t) items)"
  using assms
proof (induction items arbitrary: index acc)
  case Nil
  then show ?case by simp
next
  case (Cons d rest)
  from Cons.prems(1) obtain acc1 where
    1: "createChart_slice A t T index d acc = Some acc1"
    and 2: "createChart_forEach A t T (Suc index) rest acc1 = Some acc'"
    by (auto split: option.splits)
  note s = create_slice_Some [OF 1]
  let ?x = "\<lparr>s_container = Suc (nextHandle (snd acc)), s_value = d_value d,
         s_startAngle = fst acc,
         s_endAngle = (if int index = int (length (o_data (options (snd acc)))) - 1
                       then the (o_endAngle (options (snd acc)))
                       else n_add A (fst acc) (n_mul A (n_div A (d_value d) t) T)),
         s_id = d_id d\<rparr>"
  have last: "(int index = int (length (o_data (options (snd acc)))) - 1) = (rest = [])"
    using Cons.prems(2) by auto
  have li: "int (length (o_data (options (snd acc1)))) - 1 = int (Suc index) + int (length rest) - 1"
    using Cons.prems(2) by (simp add: s(1))
  from Cons.IH [OF 2 li] obtain new where
    new: "slices (snd acc') = slices (snd acc1) @ new"
    and ids: "map s_id new = map d_id rest"
    and vals: "map s_value new = map d_value rest"
    and angles: "map (\<lambda>s. (s_startAngle s, s_endAngle s)) new =
             angle_pairs A (the (o_endAngle (options (snd acc1)))) T (fst acc1)
               (map (\<lambda>d. n_div A (d_value d) t) rest)"
    by blast
  have 3: "slices (snd acc') = slices (snd acc) @ (?x # new)"
    by (simp add: new s(9))
  have 4: "map s_id (?x # new) = map d_id (d # rest)"
    by (simp add: ids)
  have 5: "map s_value (?x # new) = map d_value (d # rest)"
    by (simp add: vals)
  have 6: "map (\<lambda>s. (s_startAngle s, s_endAngle s)) (?x # new) =
             angle_pairs A (the (o_endAngle (options (snd acc)))) T (fst acc)
               (map (\<lambda>d. n_div A (d_value d) t) (d # rest))"
    using last by (simp add: angles s(1) s(8) Let_def)
  from 3 4 5 6 show ?case
    by (intro exI [of _ "?x # new"]) simp
qed

lemma create_loop_inv:
  assumes "createChart_forEach A t T index items acc = Some acc'"
    and "below (nextHandle (snd acc)) (slices (snd acc))"
    and "same_container_same_id (slices (snd acc))"
  shows "below (nextHandle (snd acc')) (slices (snd acc')) \<and>
         same_container_same_id (slices (snd acc'))"
  using assms
proof (induction items arbitrary: index acc)
  case Nil
  then show ?case by simp
next
  case (Cons d rest)
  from Cons.prems(1) obtain acc1 where
    1: "createChart_slice A t T index d acc = Some acc1"
    and 2: "createChart_forEach A t T (Suc index) rest acc1 = Some acc'"
    by (auto split: option.splits)
  note s = create_slice_Some [OF 1]
  obtain x where new: "slices (snd acc1) = slices (snd acc) @ [x]"
    and cont: "s_container x = Suc (nextHandle (snd acc))"
    by (simp add: s(9))
  have nh: "nextHandle (snd acc1) = Suc (Suc (nextHandle (snd acc)))"
    by (rule s(7))
  have "below (nextHandle (snd acc1)) (slices (snd acc))"
    using Cons.prems(2) by (rule below_mono) (simp add: nh)
  then have 3: "below (nextHandle (snd acc1)) (slices (snd acc1))"
    unfolding new below_snoc by (simp add: cont nh)
  have "nextHandle (snd acc) \<le> s_container x"
    by (simp add: cont)
  with Cons.prems(3) Cons.prems(2) have 4: "same_container_same_id (slices (snd acc1))"
    unfolding new by (rule scsi_snoc_fresh)
  from Cons.IH [OF 2 3 4] show ?case .
qed

text \<open>The loop returns when the drawing of every segment returns.\<close>

lemma create_loop_returns:
  assumes "\<forall>p\<in>set (angle_pairs A (the (o_endAngle (options (snd acc)))) T (fst acc)
                      (map (\<lambda>d. n_div A (d_value d) t) items)).
             drawDonutSlice A (o_innerRadius (options (snd acc))) (o_outerRadius (options (snd acc)))
               (fst p) (snd p) \<noteq> None"
    and "int (length (o_data (options (snd acc)))) - 1 = int index + int (length items) - 1"
  shows "\<exists>acc'. createChart_forEach A t T index items acc = Some acc'"
  using assms
proof (induction items arbitrary: index acc)
  case Nil
  then show ?case by simp
next
  case (Cons d rest)
  let ?e = "if int index = int (length (o_data (options (snd acc)))) - 1
            then the (o_endAngle (options (snd acc)))
            else n_add A (fst acc) (n_mul A (n_div A (d_value d) t) T)"
  have last: "(int index = int (length (o_data (options (snd acc)))) - 1) = (rest = [])"
    using Cons.prems(2) by auto
  have pairs: "angle_pairs A (the (o_endAngle (options (snd acc)))) T (fst acc)
                 (map (\<lambda>d. n_div A (d_value d) t) (d # rest)) =
               (fst acc, ?e) # angle_pairs A (the (o_endAngle (options (snd acc)))) T ?e
                 (map (\<lambda>d. n_div A (d_value d) t) rest)"
    using last by (simp add: Let_def)
  from Cons.prems(1) have "drawDonutSlice A (o_innerRadius (options (snd acc)))
      (o_outerRadius (options (snd acc))) (fst acc) ?e \<noteq> None"
    unfolding pairs by simp
  from create_slice_returns [OF this] obtain acc1 where
    1: "createChart_slice A t T index d acc = Some acc1"
    by blast
  note s = create_slice_Some [OF 1]
  have li: "int (length (o_data (options (snd acc1)))) - 1 = int (Suc index) + int (length rest) - 1"
    using Cons.prems(2) by (simp add: s(1))
  have "\<forall>p\<in>set (angle_pairs A (the (o_endAngle (options (snd acc1)))) T (fst acc1)
                      (map (\<lambda>d. n_div A (d_value d) t) rest)).
             drawDonutSlice A (o_innerRadius (options (snd acc1))) (o_outerRadius (options (snd acc1)))
               (fst p) (snd p) \<noteq> None"
    using Cons.prems(1) unfolding pairs by (simp add: s(1) s(8))
  from Cons.IH [OF this li] 1 show ?case
    by simp
qed

lemma create_slice_drawn:
  assumes "createChart_slice A t T index d acc = Some acc'"
  shows "drawDonutSlice A (o_innerRadius (options (snd acc))) (o_outerRadius (options (snd acc)))
           (fst acc)
           (if int index = int (length (o_data (options (snd acc)))) - 1
            then the (o_endAngle (options (snd acc)))
            else n_add A (fst acc) (n_mul A (n_div A (d_value d) t) T)) \<noteq> None"
proof (cases acc)
  case (Pair a c)
  with assms show ?thesis
    by (cases "int index = int (length (o_data (options c))) - 1")
       (auto simp: createChart_slice_def Let_def scene_defs split: option.splits)
qed

text \<open>And only then: a loop that has returned has drawn every segment.\<close>

lemma create_loop_drawn:
  assumes "createChart_forEach A t T index items acc = Some acc'"
    and "int (length (o_data (options (snd acc)))) - 1 = int index + int (length items) - 1"
  shows "\<forall>p\<in>set (angle_pairs A (the (o_endAngle (options (snd acc)))) T (fst acc)
                      (map (\<lambda>d. n_div A (d_value d) t) items)).
             drawDonutSlice A (o_innerRadius (options (snd acc))) (o_outerRadius (options (snd acc)))
               (fst p) (snd p) \<noteq> None"
  using assms
proof (induction items arbitrary: index acc)
  case Nil
  then show ?case by simp
next
  case (Cons d rest)
  let ?e = "if int index = int (length (o_data (options (snd acc)))) - 1
            then the (o_endAngle (options (snd acc)))
            else n_add A (fst acc) (n_mul A (n_div A (d_value d) t) T)"
  from Cons.prems(1) obtain acc1 where
    1: "createChart_slice A t T index d acc = Some acc1"
    and 2: "createChart_forEach A t T (Suc index) rest acc1 = Some acc'"
    by (auto split: option.splits)
  note s = create_slice_Some [OF 1]
  have last: "(int index = int (length (o_data (options (snd acc)))) - 1) = (rest = [])"
    using Cons.prems(2) by auto
  have pairs: "angle_pairs A (the (o_endAngle (options (snd acc)))) T (fst acc)
                 (map (\<lambda>d. n_div A (d_value d) t) (d # rest)) =
               (fst acc, ?e) # angle_pairs A (the (o_endAngle (options (snd acc)))) T ?e
                 (map (\<lambda>d. n_div A (d_value d) t) rest)"
    using last by (simp add: Let_def)
  have li: "int (length (o_data (options (snd acc1)))) - 1 = int (Suc index) + int (length rest) - 1"
    using Cons.prems(2) by (simp add: s(1))
  from Cons.IH [OF 2 li] create_slice_drawn [OF 1] show ?case
    unfolding pairs by (simp add: s(1) s(8))
qed

lemma constructor_loop:
  "DonutChart_constructor A opts =
     map_option (\<lambda>acc. createEuroText A (snd acc)) (createChart_loop A opts)"
  by (simp add: DonutChart_constructor_def createChart_def Let_def scene_defs
        option.map_comp comp_def)

lemma constructor_SomeD:
  assumes "DonutChart_constructor A opts = Some c"
  shows "\<exists>acc'. createChart_loop A opts = Some acc' \<and> c = createEuroText A (snd acc')"
  using assms unfolding constructor_loop by auto

lemma shares_withIds:
  "map (\<lambda>d. n_div A (d_value d) (total_value A (withIds data))) (withIds data) =
   map (\<lambda>d. n_div A (d_value d) (total_value A data)) data"
  by (simp add: total_withIds list_eq_iff_nth_eq length_withIds nth_withIds d_value_ensureId)

lemma constructor_fields:
  assumes "DonutChart_constructor A opts = Some c"
  shows "options c = resolved A opts"
    and "chartContainer c = Some (Suc stage)"
    and "valueText c = Some (Suc (Suc stage) + 2 * length (o_data opts))"
    and "\<not> animating c"
    and "timeline c = None"
    and "nextHandle c = Suc (Suc (Suc stage)) + 2 * length (o_data opts)"
    and "parent c (Suc stage) = Some stage"
    and "parent c (Suc (Suc stage) + 2 * length (o_data opts)) = Some stage"
proof -
  from constructor_SomeD [OF assms] obtain acc' where
    loop: "createChart_loop A opts = Some acc'" and c: "c = createEuroText A (snd acc')"
    by blast
  note f = create_loop_frame [OF loop]
  have p: "parent (snd acc') (Suc stage) = Some stage"
    using create_loop_parent [OF loop, of "Suc stage"] by simp
  show "options c = resolved A opts"
    and "chartContainer c = Some (Suc stage)"
    and "valueText c = Some (Suc (Suc stage) + 2 * length (o_data opts))"
    and "\<not> animating c"
    and "timeline c = None"
    and "nextHandle c = Suc (Suc (Suc stage)) + 2 * length (o_data opts)"
    and "parent c (Suc stage) = Some stage"
    and "parent c (Suc (Suc stage) + 2 * length (o_data opts)) = Some stage"
    using f p by (simp_all add: c createEuroText_def Let_def scene_defs length_withIds)
qed

lemma constructor_slices:
  assumes "DonutChart_constructor A opts = Some c"
  shows "map s_id (slices c) = map d_id (withIds (o_data opts))"
    and "map s_value (slices c) = map d_value (o_data opts)"
    and "map (\<lambda>s. (s_startAngle s, s_endAngle s)) (slices c) = segments_of A opts"
proof -
  from constructor_SomeD [OF assms] obtain acc' where
    loop: "createChart_loop A opts = Some acc'" and c: "c = createEuroText A (snd acc')"
    by blast
  have li: "int (length (o_data (options (snd (the (o_startAngle (resolved A opts)), blank A opts))))) - 1 =
              int 0 + int (length (withIds (o_data opts))) - 1"
    by simp
  have sl: "slices c = slices (snd acc')"
    by (simp add: c createEuroText_def Let_def scene_defs)
  from create_loop_new [OF loop li]
  show "map s_id (slices c) = map d_id (withIds (o_data opts))"
    and "map s_value (slices c) = map d_value (o_data opts)"
    and "map (\<lambda>s. (s_startAngle s, s_endAngle s)) (slices c) = segments_of A opts"
    unfolding segments_of_def shares_withIds by (simp_all add: sl values_withIds)
qed

lemma constructor_inv:
  assumes "DonutChart_constructor A opts = Some c"
  shows "below (nextHandle c) (slices c) \<and> same_container_same_id (slices c)"
proof -
  from constructor_SomeD [OF assms] obtain acc' where
    loop: "createChart_loop A opts = Some acc'" and c: "c = createEuroText A (snd acc')"
    by blast
  let ?acc = "(the (o_startAngle (resolved A opts)), blank A opts)"
  have "below (nextHandle (snd ?acc)) (slices (snd ?acc))"
    and "same_container_same_id (slices (snd ?acc))"
    by (simp_all add: below_def same_container_same_id_def)
  from create_loop_inv [OF loop this]
  have "below (nextHandle (snd acc')) (slices (snd acc'))"
    and "same_container_same_id (slices (snd acc'))"
    by simp_all
  then show ?thesis
    by (auto simp: c createEuroText_def Let_def scene_defs below_def intro: less_SucI)
qed

lemma constructor_returns:
  assumes "\<forall>p\<in>set (segments_of A opts).
             drawDonutSlice A (o_innerRadius opts) (o_outerRadius opts) (fst p) (snd p) \<noteq> None"
  shows "\<exists>c. DonutChart_constructor A opts = Some c"
proof -
  let ?acc = "(the (o_startAngle (resolved A opts)), blank A opts)"
  have li: "int (length (o_data (options (snd ?acc)))) - 1 =
              int 0 + int (length (withIds (o_data opts))) - 1"
    by simp
  have "\<forall>p\<in>set (angle_pairs A (the (o_endAngle (options (snd ?acc))))
                      (n_sub A (the (o_endAngle (resolved A opts))) (the (o_startAngle (resolved A opts))))
                      (fst ?acc)
                      (map (\<lambda>d. n_div A (d_value d) (total_value A (withIds (o_data opts))))
                         (withIds (o_data opts)))).
             drawDonutSlice A (o_innerRadius (options (snd ?acc))) (o_outerRadius (options (snd ?acc)))
               (fst p) (snd p) \<noteq> None"
    using assms unfolding segments_of_def shares_withIds by simp
  from create_loop_returns [OF this li] show ?thesis
    unfolding constructor_loop by auto
qed

lemma constructor_drawn:
  assumes "DonutChart_constructor A opts = Some c"
  shows "\<forall>p\<in>set (segments_of A opts).
           drawDonutSlice A (o_innerRadius opts) (o_outerRadius opts) (fst p) (snd p) \<noteq> None"
proof -
  let ?acc = "(the (o_startAngle (resolved A opts)), blank A opts)"
  from constructor_SomeD [OF assms] obtain acc' where
    loop: "createChart_loop A opts = Some acc'"
    by blast
  have li: "int (length (o_data (options (snd ?acc)))) - 1 =
              int 0 + int (length (withIds (o_data opts))) - 1"
    by simp
  from create_loop_drawn [OF loop li] show ?thesis
    unfolding segments_of_def shares_withIds by simp
qed

lemma constructor_exact: "\<exists>c. DonutChart_constructor exact opts = Some c"
  by (rule constructor_returns) (simp add: drawDonutSlice_exact)

section \<open>Completion of the timeline\<close>

lemma detach_frame:
  "slices (detachUnlessKept ns o' c) = slices c \<and>
   options (detachUnlessKept ns o' c) = options c \<and>
   animating (detachUnlessKept ns o' c) = animating c \<and>
   timeline (detachUnlessKept ns o' c) = timeline c \<and>
   chartContainer (detachUnlessKept ns o' c) = chartContainer c \<and>
   valueText (detachUnlessKept ns o' c) = valueText c \<and>
   textOf (detachUnlessKept ns o' c) = textOf c \<and>
   nextHandle (detachUnlessKept ns o' c) = nextHandle c"
  by (simp add: detachUnlessKept_def removeChild_def split: option.splits)

lemma detach_parent:
  "parent (detachUnlessKept ns o' c) h =
     (if s_container o' = h \<and> find (\<lambda>slice. strict_eq (s_id slice) (s_id o')) ns = None
      then None else parent c h)"
  by (auto simp: detachUnlessKept_def removeChild_def split: option.splits)

lemma fold_detach_frame:
  "slices (fold (detachUnlessKept ns) os c) = slices c \<and>
   options (fold (detachUnlessKept ns) os c) = options c \<and>
   animating (fold (detachUnlessKept ns) os c) = animating c \<and>
   timeline (fold (detachUnlessKept ns) os c) = timeline c \<and>
   chartContainer (fold (detachUnlessKept ns) os c) = chartContainer c \<and>
   valueText (fold (detachUnlessKept ns) os c) = valueText c \<and>
   textOf (fold (detachUnlessKept ns) os c) = textOf c \<and>
   nextHandle (fold (detachUnlessKept ns) os c) = nextHandle c"
  by (induction os arbitrary: c) (simp_all add: detach_frame)

lemma fold_detach_parent:
  "parent (fold (detachUnlessKept ns) os c) h =
     (if \<exists>o'\<in>set os. s_container o' = h \<and>
           find (\<lambda>slice. strict_eq (s_id slice) (s_id o')) ns = None
      then None else parent c h)"
  by (induction os arbitrary: c) (auto simp: detach_parent)

lemma onComplete_fields:
  assumes "timeline c = Some tline"
  shows "slices (onComplete c) = t_newSlices tline"
    and "\<not> animating (onComplete c)"
    and "timeline (onComplete c) = None"
    and "options (onComplete c) = options c"
    and "chartContainer (onComplete c) = chartContainer c"
    and "nextHandle (onComplete c) = nextHandle c"
    and "parent (onComplete c) h =
      (if \<exists>o'\<in>set (t_oldSlices tline). s_container o' = h \<and>
           find (\<lambda>slice. strict_eq (s_id slice) (s_id o')) (t_newSlices tline) = None
       then None else parent c h)"
  using assms
  by (auto simp: onComplete_def Let_def fold_detach_frame fold_detach_parent)

section \<open>Events while a transition runs\<close>

lemma updateData_busy: "animating c \<Longrightarrow> updateData A newData c = c"
  by (simp add: updateData_def)

lemma step_busy:
  assumes "animating c" and "e \<noteq> TimelineComplete"
  shows "slices (step A e c) = slices c \<and> parent (step A e c) = parent c \<and>
         timeline (step A e c) = timeline c \<and> animating (step A e c) \<and>
         nextHandle (step A e c) = nextHandle c \<and>
         chartContainer (step A e c) = chartContainer c \<and>
         o_data (options (step A e c)) = o_data (options c) \<and>
         o_startAngle (options (step A e c)) = o_startAngle (options c) \<and>
         o_endAngle (options (step A e c)) = o_endAngle (options c)"
  using assms
  by (cases e) (simp_all add: updateData_busy updateEuroValue_def Let_def split: option.splits)

lemma run_busy:
  assumes "animating c" and "TimelineComplete \<notin> set es"
  shows "slices (run A es c) = slices c \<and> parent (run A es c) = parent c \<and>
         timeline (run A es c) = timeline c \<and> animating (run A es c) \<and>
         nextHandle (run A es c) = nextHandle c \<and>
         chartContainer (run A es c) = chartContainer c \<and>
         o_data (options (run A es c)) = o_data (options c) \<and>
         o_startAngle (options (run A es c)) = o_startAngle (options c) \<and>
         o_endAngle (options (run A es c)) = o_endAngle (options c)"
  using assms
proof (induction es arbitrary: c)
  case Nil
  then show ?case by (simp add: run_def)
next
  case (Cons e es)
  then have e: "e \<noteq> TimelineComplete" and es: "TimelineComplete \<notin> set es"
    by auto
  note s = step_busy [OF Cons.prems(1) e]
  from s have "animating (step A e c)" by simp
  from Cons.IH [OF this es] s show ?case
    by (simp add: run_def)
qed

section \<open>Well-formedness is invariant\<close>

lemma scsi_append2: "same_container_same_id (xs @ ys) \<Longrightarrow> same_container_same_id ys"
  by (simp add: same_container_same_id_def)

lemma below_append: "below b (xs @ ys) = (below b xs \<and> below b ys)"
  by (auto simp: below_def)

lemma wf_constructor: "DonutChart_constructor A opts = Some c \<Longrightarrow> wf_chart c"
  using constructor_inv [of A opts c] by (simp add: wf_chart_def constructor_fields)

lemma wf_updateData: 
  assumes "wf_chart c"
  shows "wf_chart (updateData A newData c)"
proof (cases "animating c")
  case True
  with assms show ?thesis by (simp add: updateData_busy)
next
  case False
  from assms have b: "below (nextHandle c) (slices c)" and i: "same_container_same_id (slices c)"
    by (simp_all add: wf_chart_def)
  from updateData_accepted [OF False, where newData = newData and A = A] b i obtain new where
    tl: "timeline (updateData A newData c) =
             Some \<lparr>t_newSlices = new, t_oldSlices = slices c,
                   t_tweens = map (makeTween A (withIds newData) (slices c)) (enumerate 0 new)\<rparr>"
    and inv: "below (nextHandle (updateData A newData c)) (slices c @ new)"
      "same_container_same_id (slices c @ new)"
    by blast
  from inv show ?thesis
    by (simp add: wf_chart_def tl updateData_frame(1) [OF False] below_append i scsi_append2 [OF inv(2)])
qed

lemma wf_onComplete:
  assumes "wf_chart c"
  shows "wf_chart (onComplete c)"
proof (cases "timeline c")
  case None
  with assms show ?thesis by (simp add: onComplete_def)
next
  case (Some tline)
  with assms show ?thesis
    by (simp add: wf_chart_def onComplete_fields [OF Some])
qed

lemma wf_step: "wf_chart c \<Longrightarrow> wf_chart (step A e c)"
proof (cases e)
  case (UpdateData newData)
  assume "wf_chart c"
  then show ?thesis by (simp add: UpdateData wf_updateData)
next
  case (UpdateEuroValue v)
  assume "wf_chart c"
  then show ?thesis
    by (simp add: UpdateEuroValue updateEuroValue_def wf_chart_def Let_def split: option.splits)
next
  case TimelineComplete
  assume "wf_chart c"
  then show ?thesis by (simp add: TimelineComplete wf_onComplete)
qed

lemma wf_run: "wf_chart c \<Longrightarrow> wf_chart (run A es c)"
  unfolding run_def by (induction es arbitrary: c) (simp_all add: wf_step)

section \<open>Commitment of a transition\<close>

lemmas eval_defs =
  DonutChart_constructor_def createChart_def createEuroText_def createChart_slice_def
  updateData_def updateData_slice_def makeTween_def onComplete_def detachUnlessKept_def
  updateEuroValue_def run_def findSlice_def newObject_def addChild_def removeChild_def
  withIds_def ensureId_def total_value_def stage_def enumerate_eq_zip Let_def
  drawDonutSlice_exact

lemma partition_from_pairs:
  assumes angles: "map (\<lambda>s. (s_startAngle s, s_endAngle s)) ss =
             angle_pairs A E (n_sub A E S) S
               (map (\<lambda>d. n_div A (d_value d) (total_value A data)) data)"
    and ids: "map s_id ss = map d_id (withIds data)"
  shows "partitions_range A S E data ss"
proof -
  let ?ps = "map (\<lambda>d. n_div A (d_value d) (total_value A data)) data"
  let ?pairs = "angle_pairs A E (n_sub A E S) S ?ps"
  have len: "length ss = length data"
    using arg_cong [OF angles, of length] by (simp add: length_angle_pairs)
  have "s_id (ss ! i) = d_id (withIds data ! i) \<and>
         s_startAngle (ss ! i) = (if i = 0 then S else s_endAngle (ss ! (i - 1))) \<and>
         s_endAngle (ss ! i) =
           (if Suc i = length data then E
            else n_add A (s_startAngle (ss ! i))
                   (n_mul A (n_div A (d_value (data ! i)) (total_value A data)) (n_sub A E S)))"
    if i: "i < length data" for i
  proof -
    have pair: "(s_startAngle (ss ! j), s_endAngle (ss ! j)) = ?pairs ! j" if "j < length data" for j
      using arg_cong [OF angles, of "\<lambda>xs. xs ! j"] that len by simp
    have id: "s_id (ss ! i) = d_id (withIds data ! i)"
      using arg_cong [OF ids, of "\<lambda>xs. xs ! i"] i len by (simp add: length_withIds)
    have start: "s_startAngle (ss ! i) = (if i = 0 then S else s_endAngle (ss ! (i - 1)))"
    proof (cases i)
      case 0
      from i have "?ps \<noteq> []" by auto
      from angle_pairs_first [OF this, of A E "n_sub A E S" S] arg_cong [OF pair [OF i], of fst] 0
      show ?thesis by simp
    next
      case (Suc j)
      with i have j: "j < length data" and sj: "Suc j < length ?ps"
        by simp_all
      from angle_pairs_contiguous [OF sj, of A E "n_sub A E S" S]
        arg_cong [OF pair [OF i], of fst] arg_cong [OF pair [OF j], of snd] Suc
      show ?thesis by simp
    qed
    have "end": "s_endAngle (ss ! i) =
           (if Suc i = length data then E
            else n_add A (s_startAngle (ss ! i))
                   (n_mul A (n_div A (d_value (data ! i)) (total_value A data)) (n_sub A E S)))"
      using arg_cong [OF pair [OF i], of snd] arg_cong [OF pair [OF i], of fst]
        angle_pairs_end [of i ?ps A E "n_sub A E S" S] i
      by simp
    from id start "end" show ?thesis by simp
  qed
  with len show ?thesis
    unfolding partitions_range_def by blast
qed

lemma run_transition:
  "run A (UpdateData newData # es @ [TimelineComplete]) c =
     onComplete (run A es (updateData A newData c))"
  by (simp add: run_def)

lemma run_update: "run A (UpdateData newData # es) c = run A es (updateData A newData c)"
  by (simp add: run_def)

lemma transition_commits:
  assumes idle: "\<not> animating c" and es: "TimelineComplete \<notin> set es"
  shows "\<exists>new. slices (run A (UpdateData newData # es @ [TimelineComplete]) c) = new \<and>
           map s_id new = map d_id (withIds newData) \<and>
           map s_value new =
             map (\<lambda>d. d_value (the (find (\<lambda>d'. strict_eq (d_id d') (d_id d)) (withIds newData))))
               (withIds newData) \<and>
           map (\<lambda>s. (s_startAngle s, s_endAngle s)) new =
             angle_pairs A (the (o_endAngle (options c)))
               (n_sub A (the (o_endAngle (options c))) (the (o_startAngle (options c))))
               (the (o_startAngle (options c)))
               (map (\<lambda>d. n_div A (d_value d) (total_value A newData)) newData) \<and>
           (\<forall>n\<in>set new. container_from (slices c) (nextHandle c) n) \<and>
           \<not> animating (run A (UpdateData newData # es @ [TimelineComplete]) c) \<and>
           o_startAngle (options (run A (UpdateData newData # es @ [TimelineComplete]) c)) =
             o_startAngle (options c) \<and>
           o_endAngle (options (run A (UpdateData newData # es @ [TimelineComplete]) c)) =
             o_endAngle (options c) \<and>
           (\<forall>h<nextHandle c.
              parent (run A (UpdateData newData # es @ [TimelineComplete]) c) h =
                (if \<exists>o'\<in>set (slices c). s_container o' = h \<and>
                      find (\<lambda>slice. strict_eq (s_id slice) (s_id o')) new = None
                 then None else parent c h))"
proof -
  let ?c1 = "updateData A newData c"
  from updateData_accepted [OF idle, where newData = newData and A = A] obtain new where
    tl: "timeline ?c1 =
             Some \<lparr>t_newSlices = new, t_oldSlices = slices c,
                   t_tweens = map (makeTween A (withIds newData) (slices c)) (enumerate 0 new)\<rparr>"
    and ids: "map s_id new = map d_id (withIds newData)"
    and vals: "map s_value new =
             map (\<lambda>d. d_value (the (find (\<lambda>d'. strict_eq (d_id d') (d_id d)) (withIds newData))))
               (withIds newData)"
    and angles: "map (\<lambda>s. (s_startAngle s, s_endAngle s)) new =
             angle_pairs A (the (o_endAngle (options c)))
               (n_sub A (the (o_endAngle (options c))) (the (o_startAngle (options c))))
               (the (o_startAngle (options c)))
               (map (\<lambda>d. n_div A (d_value d) (total_value A newData)) newData)"
    and conts: "\<forall>n\<in>set new. container_from (slices c) (nextHandle c) n"
    by blast
  have busy: "animating ?c1"
    by (rule updateData_frame(2) [OF idle])
  note rb = run_busy [OF busy es]
  from rb tl have tl': "timeline (run A es ?c1) =
             Some \<lparr>t_newSlices = new, t_oldSlices = slices c,
                   t_tweens = map (makeTween A (withIds newData) (slices c)) (enumerate 0 new)\<rparr>"
    by simp
  note oc = onComplete_fields [OF tl']
  have 1: "slices (run A (UpdateData newData # es @ [TimelineComplete]) c) = new"
    by (simp add: run_transition oc(1))
  have 2: "\<not> animating (run A (UpdateData newData # es @ [TimelineComplete]) c)"
    by (simp add: run_transition oc(2))
  have 3: "parent (run A (UpdateData newData # es @ [TimelineComplete]) c) h =
                (if \<exists>o'\<in>set (slices c). s_container o' = h \<and>
                      find (\<lambda>slice. strict_eq (s_id slice) (s_id o')) new = None
                 then None else parent c h)" if "h < nextHandle c" for h
  proof -
    have "parent (run A es ?c1) h = parent c h"
      using rb updateData_frame(8) [OF idle that, where newData = newData and A = A] by simp
    then show ?thesis
      unfolding run_transition oc(7) by auto
  qed
  have 4: "o_startAngle (options (run A (UpdateData newData # es @ [TimelineComplete]) c)) =
             o_startAngle (options c)"
    and 5: "o_endAngle (options (run A (UpdateData newData # es @ [TimelineComplete]) c)) =
             o_endAngle (options c)"
    using rb by (simp_all add: run_transition oc(4) updateData_frame(3) [OF idle])
  from 1 2 3 4 5 ids vals angles conts show ?thesis
    by blast
qed

lemma scenario_constructed: "DonutChart_constructor exact scenario = Some scenario_chart"
  using constructor_exact [of scenario] by (auto simp: scenario_chart_def)

lemma scenario_idle: "\<not> animating scenario_chart"
  by (rule constructor_fields(4) [OF scenario_constructed])

lemma scenario_wf: "wf_chart scenario_chart"
  by (rule wf_constructor [OF scenario_constructed])

lemma find_SomeD: "find P xs = Some x \<Longrightarrow> x \<in> set xs \<and> P x"
  by (induction xs) (auto split: if_splits)

lemma findSlice_SomeD: "findSlice i ss = Some n \<Longrightarrow> n \<in> set ss \<and> s_id n = i"
  unfolding findSlice_def by (drule find_SomeD) (simp add: strict_eq_imp_eq)

lemma findSlice_present:
  assumes "i \<in> set (map s_id ss)" and "i \<noteq> IdNaN"
  shows "\<exists>n. findSlice i ss = Some n \<and> n \<in> set ss \<and> s_id n = i"
proof -
  from assms(1) obtain x where x: "x \<in> set ss" "s_id x = i"
    by auto
  from assms(2) have "strict_eq i i"
    by (rule strict_eq_refl)
  with x have "find (\<lambda>slice. strict_eq (s_id slice) i) ss \<noteq> None"
    by (auto simp: find_None_iff)
  then obtain n where "findSlice i ss = Some n"
    by (auto simp: findSlice_def)
  with findSlice_SomeD [OF this] show ?thesis
    by simp
qed

lemma findSlice_absent: "i \<notin> set (map s_id ss) \<Longrightarrow> findSlice i ss = None"
proof (cases "findSlice i ss")
  case None
  then show ?thesis .
next
  case (Some n)
  assume "i \<notin> set (map s_id ss)"
  with findSlice_SomeD [OF Some] show ?thesis
    by auto
qed

lemma withIds_not_NaN:
  assumes "i \<in> set (map d_id (withIds newData))"
  shows "i \<noteq> IdNaN"
proof -
  from assms obtain d where "d \<in> set (withIds newData)" and "d_id d = i"
    by auto
  then show ?thesis
    using not_falsy_not_NaN [OF withIds_truthy] by blast
qed

section \<open>Loops that do not end, and the step of the doubles\<close>

lemma outerArc_stuck:
  assumes "n_le A angle endAngle" and "n_add A angle (n_lit A precision) = angle"
  shows "outerArc A R endAngle angle pts = None"
proof (cases "outerArc A R endAngle angle pts")
  case None
  then show ?thesis .
next
  case (Some y)
  have "\<not> (n_le A angle endAngle \<and> n_add A angle (n_lit A precision) = angle)"
    by (rule outerArc.raw_induct
          [where P = "\<lambda>A R e a pts y. \<not> (n_le A a e \<and> n_add A a (n_lit A precision) = a)",
           OF _ Some])
       (auto split: if_splits)
  with assms show ?thesis
    by simp
qed

lemma ulp_eq:
  assumes "2 powr of_int k \<le> \<bar>x\<bar>" and "\<bar>x\<bar> < 2 powr (of_int k + 1)"
  shows "ulp x = 2 powr (of_int k - 52)"
proof -
  from assms(1) have "0 < \<bar>x\<bar>"
    by (smt (verit) powr_gt_zero)
  then have "\<lfloor>log 2 \<bar>x\<bar>\<rfloor> = k"
    using assms by (simp add: floor_log_eq_powr_iff)
  then show ?thesis
    by (simp add: ulp_def)
qed

lemma round_to_double_down:
  assumes "ulp x = u" and "0 < u" and "of_int f \<le> x / u" and "x / u < of_int f + 1 / 2"
    and "x \<noteq> 0"
  shows "round_to_double x = of_int f * u"
proof -
  from assms(3) assms(4) have fl: "\<lfloor>x / u\<rfloor> = f"
    by (intro floor_unique) simp_all
  from assms(4) have lt: "x / u - of_int f < 1 / 2"
    by linarith
  have "round_to_double x =
      of_int (if x / ulp x - of_int \<lfloor>x / ulp x\<rfloor> < 1 / 2 then \<lfloor>x / ulp x\<rfloor>
              else if 1 / 2 < x / ulp x - of_int \<lfloor>x / ulp x\<rfloor> then \<lfloor>x / ulp x\<rfloor> + 1
              else if even \<lfloor>x / ulp x\<rfloor> then \<lfloor>x / ulp x\<rfloor> else \<lfloor>x / ulp x\<rfloor> + 1) * ulp x"
    unfolding round_to_double_def Let_def using assms(5) by (simp only: if_False)
  then show ?thesis
    by (simp only: assms(1) fl lt if_True)
qed

lemma double_precision: "round_to_double precision = 8646911284551352 / 2 ^ 58"
proof -
  define p :: real where "p = 3 / 100"
  have "2 powr of_int (- 6) \<le> \<bar>p\<bar>" and "\<bar>p\<bar> < 2 powr (of_int (- 6) + 1)"
    by (simp_all add: p_def powr_neg_numeral)
  from ulp_eq [OF this] have u: "ulp p = 1 / 2 ^ 58"
    by (simp add: powr_neg_numeral)
  have "round_to_double p = of_int 8646911284551352 * (1 / 2 ^ 58)"
    by (rule round_to_double_down [OF u]) (simp_all add: p_def)
  then show ?thesis
    by (simp add: p_def precision_def)
qed

lemma double_step_absorbed:
  "n_add binary64 (2 ^ 48) (n_lit binary64 precision) = 2 ^ 48"
proof -
  define x :: real where "x = 2 ^ 48 + 8646911284551352 / 2 ^ 58"
  have "2 powr of_int 48 \<le> \<bar>x\<bar>" and "\<bar>x\<bar> < 2 powr (of_int 48 + 1)"
    by (simp_all add: x_def)
  from ulp_eq [OF this] have u: "ulp x = 1 / 2 ^ 4"
    by (simp add: powr_neg_numeral)
  have "round_to_double x = of_int (2 ^ 52) * (1 / 2 ^ 4)"
    by (rule round_to_double_down [OF u]) (simp_all add: x_def)
  then have "round_to_double x = 2 ^ 48"
    by simp
  then show ?thesis
    by (simp add: binary64_def double_precision x_def)
qed

lemma innerArc_stuck:
  assumes "n_le A startAngle angle" and "n_sub A angle (n_lit A precision) = angle"
  shows "innerArc A r startAngle angle pts = None"
proof (cases "innerArc A r startAngle angle pts")
  case None
  then show ?thesis .
next
  case (Some y)
  have "\<not> (n_le A startAngle angle \<and> n_sub A angle (n_lit A precision) = angle)"
    by (rule innerArc.raw_induct
          [where P = "\<lambda>A r s a pts y. \<not> (n_le A s a \<and> n_sub A a (n_lit A precision) = a)",
           OF _ Some])
       (auto split: if_splits)
  with assms show ?thesis
    by simp
qed

text \<open>A slice whose start is its end, where the step is effective.\<close>

lemma outerArc_degenerate:
  assumes "\<not> n_le A (n_add A a (n_lit A precision)) a"
  shows "outerArc A R a a pts =
           Some (if n_le A a a then pts @ [(n_mul A (n_cos A a) R, n_mul A (n_sin A a) R)]
                 else pts)"
proof (cases "n_le A a a")
  case False
  then show ?thesis
    by (subst outerArc.simps) simp
next
  case True
  have "outerArc A R a (n_add A a (n_lit A precision))
          (pts @ [(n_mul A (n_cos A a) R, n_mul A (n_sin A a) R)]) =
        Some (pts @ [(n_mul A (n_cos A a) R, n_mul A (n_sin A a) R)])"
    using assms by (subst outerArc.simps) simp
  with True show ?thesis
    by (subst outerArc.simps) simp
qed

lemma innerArc_degenerate:
  assumes "\<not> n_le A a (n_sub A a (n_lit A precision))"
  shows "innerArc A r a a pts =
           Some (if n_le A a a then pts @ [(n_mul A (n_cos A a) r, n_mul A (n_sin A a) r)]
                 else pts)"
proof (cases "n_le A a a")
  case False
  then show ?thesis
    by (subst innerArc.simps) simp
next
  case True
  have "innerArc A r a (n_sub A a (n_lit A precision))
          (pts @ [(n_mul A (n_cos A a) r, n_mul A (n_sin A a) r)]) =
        Some (pts @ [(n_mul A (n_cos A a) r, n_mul A (n_sin A a) r)])"
    using assms by (subst innerArc.simps) simp
  with True show ?thesis
    by (subst innerArc.simps) simp
qed

text \<open>At the angle \<open>0\<close> the step of the doubles is effective in both directions.\<close>

lemma double_step_from_zero:
  "n_add binary64 0 (n_lit binary64 precision) = 8646911284551352 / 2 ^ 58"
  "n_sub binary64 0 (n_lit binary64 precision) = - (8646911284551352 / 2 ^ 58)"
proof -
  define p :: real where "p = 8646911284551352 / 2 ^ 58"
  have "2 powr of_int (- 6) \<le> \<bar>p\<bar>" and "\<bar>p\<bar> < 2 powr (of_int (- 6) + 1)"
    by (simp_all add: p_def powr_neg_numeral)
  from ulp_eq [OF this] have u: "ulp p = 1 / 2 ^ 58"
    by (simp add: powr_neg_numeral)
  have "2 powr of_int (- 6) \<le> \<bar>- p\<bar>" and "\<bar>- p\<bar> < 2 powr (of_int (- 6) + 1)"
    by (simp_all add: p_def powr_neg_numeral)
  from ulp_eq [OF this] have u': "ulp (- p) = 1 / 2 ^ 58"
    by (simp add: powr_neg_numeral)
  have "round_to_double p = of_int 8646911284551352 * (1 / 2 ^ 58)"
    by (rule round_to_double_down [OF u]) (simp_all add: p_def)
  then have 1: "round_to_double p = p"
    by (simp add: p_def)
  have "round_to_double (- p) = of_int (- 8646911284551352) * (1 / 2 ^ 58)"
    by (rule round_to_double_down [OF u']) (simp_all add: p_def)
  then have 2: "round_to_double (- p) = - p"
    by (simp add: p_def)
  from 1 show "n_add binary64 0 (n_lit binary64 precision) = 8646911284551352 / 2 ^ 58"
    by (simp add: binary64_def double_precision p_def)
  from 2 show "n_sub binary64 0 (n_lit binary64 precision) = - (8646911284551352 / 2 ^ 58)"
    by (simp add: binary64_def double_precision p_def)
qed

section \<open>Exact arithmetic\<close>

text \<open>
  In exact arithmetic the spans of the slices that a non-empty update commits add up to the
  configured end angle minus the configured start angle.  With the rounding of the doubles
  the sum of the differences need not be that value.
\<close>

lemma exact_spans_add_up:
  assumes "\<not> animating c" and "TimelineComplete \<notin> set es" and "newData \<noteq> []"
  shows "(\<Sum>s\<leftarrow>slices (run exact (UpdateData newData # es @ [TimelineComplete]) c).
            s_endAngle s - s_startAngle s) =
         the (o_endAngle (options c)) - the (o_startAngle (options c))"
proof -
  let ?E = "the (o_endAngle (options c))"
  let ?S = "the (o_startAngle (options c))"
  let ?ps = "map (\<lambda>d. n_div exact (d_value d) (total_value exact newData)) newData"
  from transition_commits [OF assms(1) assms(2), where newData = newData and A = exact]
  obtain new where
    new: "slices (run exact (UpdateData newData # es @ [TimelineComplete]) c) = new"
    and angles: "map (\<lambda>s. (s_startAngle s, s_endAngle s)) new =
                   angle_pairs exact ?E (n_sub exact ?E ?S) ?S ?ps"
    by blast
  from assms(3) have ne: "?ps \<noteq> []"
    by simp
  have "(\<Sum>s\<leftarrow>new. s_endAngle s - s_startAngle s) =
        (\<Sum>(s, e)\<leftarrow>map (\<lambda>s. (s_startAngle s, s_endAngle s)) new. e - s)"
    by (simp add: comp_def)
  also have "\<dots> = ?E - ?S"
    unfolding angles using ne by (rule angle_pairs_spans)
  finally show ?thesis
    by (simp add: new)
qed

text \<open>
  In exact arithmetic, and for a total that is not \<open>0\<close>, the span of every segment of a
  partition is the share of its item, the one of the last segment included.
\<close>

lemma exact_partition_start:
  assumes "partitions_range exact S E data ss" and "j < length data"
  shows "s_startAngle (ss ! j) =
           S + sum_list (map d_value (take j data)) / total_value exact data * (E - S)"
  using assms(2)
proof (induction j)
  case 0
  with assms(1) show ?case
    unfolding partitions_range_def by auto
next
  case (Suc j)
  then have j: "j < length data" and nl: "Suc j \<noteq> length data"
    by simp_all
  from assms(1) Suc.prems have "s_startAngle (ss ! Suc j) = s_endAngle (ss ! j)"
    unfolding partitions_range_def by auto
  also from assms(1) j nl have "\<dots> = s_startAngle (ss ! j) +
      d_value (data ! j) / total_value exact data * (E - S)"
    unfolding partitions_range_def by auto
  finally show ?case
    using Suc.IH [OF j] j by (simp add: take_Suc_conv_app_nth algebra_simps add_divide_distrib)
qed

lemma exact_spans_proportional:
  assumes "partitions_range exact S E data ss" and "total_value exact data \<noteq> 0"
    and "i < length data"
  shows "s_endAngle (ss ! i) - s_startAngle (ss ! i) =
           d_value (data ! i) / total_value exact data * (E - S)"
proof (cases "Suc i = length data")
  case False
  with assms(1) assms(3) show ?thesis
    unfolding partitions_range_def by auto
next
  case True
  let ?T = "total_value exact data"
  from assms(1) assms(3) True have e: "s_endAngle (ss ! i) = E"
    unfolding partitions_range_def by auto
  have "data = take i data @ [data ! i]"
    using True by (metis Suc_eq_plus1 assms(3) order_refl take_Suc_conv_app_nth take_all)
  then have "sum_list (map d_value data) = sum_list (map d_value (take i data)) + d_value (data ! i)"
    by (metis (no_types, lifting) add.right_neutral list.simps(8,9) map_append sum_list.Cons
          sum_list.Nil sum_list_append)
  then have "sum_list (map d_value (take i data)) = ?T - d_value (data ! i)"
    by (simp add: total_value_sum)
  with exact_partition_start [OF assms(1) assms(3)]
  have "s_startAngle (ss ! i) = S + (?T - d_value (data ! i)) / ?T * (E - S)"
    by simp
  with assms(2) e show ?thesis
    by (simp add: field_simps)
qed

section \<open>The claims\<close>

text \<open>
  Claim C1.  The angle computation partitions the range from the configured start angle to
  the configured end angle into one segment per item, in the arithmetic of the code,
  whatever it is: the first segment starts at the start angle, every other segment starts
  at the end of the one before, and the end of a segment is its start plus the share
  \<open>value / total\<close> of the range, except for the last segment, whose end is the configured
  end angle itself and not a sum.  This holds for the slices that an update on an idle
  chart commits and for the slices of a chart that the constructor has built.  In exact
  arithmetic and for a total that is not \<open>0\<close> the span of every segment, the last one
  included, is then the share of its item (\<open>exact_spans_proportional\<close>).  In the
  scenario with the range from \<open>-\<pi>\<close> to \<open>0\<close> and the values 30 and 70, in exact
  arithmetic, segment \<open>a\<close> runs from \<open>-\<pi>\<close> to \<open>-0.7\<pi>\<close> and segment \<open>b\<close> from
  \<open>-0.7\<pi>\<close> to \<open>0\<close>.
\<close>

theorem angles_partition_the_range:
  "(\<not> animating c \<longrightarrow>
      partitions_range A (the (o_startAngle (options c))) (the (o_endAngle (options c)))
        newData (slices (run A [UpdateData newData, TimelineComplete] c))) \<and>
   (DonutChart_constructor A opts = Some c' \<longrightarrow>
      partitions_range A (the (o_startAngle (options c'))) (the (o_endAngle (options c')))
        (o_data opts) (slices c')) \<and>
   map_option (\<lambda>c. map (\<lambda>s. (s_id s, s_startAngle s, s_endAngle s)) (slices c))
     (DonutChart_constructor exact scenario) =
     Some [(IdStr ''a'', - pi, - (7 / 10) * pi), (IdStr ''b'', - (7 / 10) * pi, 0)]"
proof (intro conjI impI)
  assume idle: "\<not> animating c"
  have "TimelineComplete \<notin> set ([] :: 'a event list)"
    by simp
  from transition_commits [OF idle this, where newData = newData and A = A] obtain new where
    "slices (run A [UpdateData newData, TimelineComplete] c) = new"
    "map s_id new = map d_id (withIds newData)"
    "map (\<lambda>s. (s_startAngle s, s_endAngle s)) new =
       angle_pairs A (the (o_endAngle (options c)))
         (n_sub A (the (o_endAngle (options c))) (the (o_startAngle (options c))))
         (the (o_startAngle (options c)))
         (map (\<lambda>d. n_div A (d_value d) (total_value A newData)) newData)"
    by auto
  then show "partitions_range A (the (o_startAngle (options c))) (the (o_endAngle (options c)))
        newData (slices (run A [UpdateData newData, TimelineComplete] c))"
    by (simp add: partition_from_pairs)
next
  assume built: "DonutChart_constructor A opts = Some c'"
  from constructor_slices(3) [OF built] constructor_slices(1) [OF built]
  show "partitions_range A (the (o_startAngle (options c'))) (the (o_endAngle (options c')))
        (o_data opts) (slices c')"
    unfolding segments_of_def constructor_fields(1) [OF built]
    by (intro partition_from_pairs) simp_all
next
  show "map_option (\<lambda>c. map (\<lambda>s. (s_id s, s_startAngle s, s_endAngle s)) (slices c))
     (DonutChart_constructor exact scenario) =
     Some [(IdStr ''a'', - pi, - (7 / 10) * pi), (IdStr ''b'', - (7 / 10) * pi, 0)]"
    by (simp add: scenario_def eval_defs)
qed

text \<open>The theorem at the chart of the scenario.\<close>

theorem angles_partition_the_range_witness:
  "\<not> animating scenario_chart \<and>
   partitions_range exact (- pi) 0 update_data
     (slices (run exact [UpdateData update_data, TimelineComplete] scenario_chart)) \<and>
   DonutChart_constructor exact scenario = Some scenario_chart \<and>
   partitions_range exact (- pi) 0 (o_data scenario) (slices scenario_chart)"
proof -
  have 3: "the (o_startAngle (options scenario_chart)) = - pi"
    "the (o_endAngle (options scenario_chart)) = 0"
    by (simp_all add: constructor_fields(1) [OF scenario_constructed] scenario_def)
  from angles_partition_the_range
         [where A = exact and c = scenario_chart and newData = update_data
            and opts = scenario and c' = scenario_chart]
    scenario_idle scenario_constructed
  show ?thesis
    by (simp add: 3)
qed

text \<open>
  Claim C2, as stated, fails: an update with no items is accepted on an idle chart, and
  when it commits the registry is empty.  On the chart of the scenario, in exact
  arithmetic, the spans of the stored segments then add up to \<open>0\<close>, while the configured
  end angle minus the configured start angle is \<open>\<pi>\<close>, which is more than \<open>10\<^sup>-\<^sup>9\<close> away.
\<close>

theorem empty_update_commits_no_span:
  "\<not> animating scenario_chart \<and>
   animating (updateData exact [] scenario_chart) \<and>
   \<not> animating (run exact [UpdateData [], TimelineComplete] scenario_chart) \<and>
   slices (run exact [UpdateData [], TimelineComplete] scenario_chart) = [] \<and>
   the (o_endAngle (options (run exact [UpdateData [], TimelineComplete] scenario_chart))) -
     the (o_startAngle (options (run exact [UpdateData [], TimelineComplete] scenario_chart))) = pi \<and>
   \<not> \<bar>(\<Sum>s\<leftarrow>slices (run exact [UpdateData [], TimelineComplete] scenario_chart).
          s_endAngle s - s_startAngle s) -
        (the (o_endAngle (options (run exact [UpdateData [], TimelineComplete] scenario_chart))) -
         the (o_startAngle (options (run exact [UpdateData [], TimelineComplete] scenario_chart))))\<bar>
       \<le> 1 / 10 ^ 9"
proof -
  let ?c' = "run exact [UpdateData [], TimelineComplete] scenario_chart"
  have es: "TimelineComplete \<notin> set ([] :: real event list)"
    by simp
  note commit = transition_commits [OF scenario_idle es, where newData = "[]" and A = exact]
  from commit have empty: "slices ?c' = []"
    by (elim exE conjE) (simp add: withIds_def)
  from commit have idle: "\<not> animating ?c'"
    by (elim exE conjE) simp
  from commit have S: "o_startAngle (options ?c') = o_startAngle (options scenario_chart)"
    by (elim exE conjE) simp
  from commit have E: "o_endAngle (options ?c') = o_endAngle (options scenario_chart)"
    by (elim exE conjE) simp
  have range: "the (o_endAngle (options ?c')) - the (o_startAngle (options ?c')) = pi"
    unfolding S E by (simp add: constructor_fields(1) [OF scenario_constructed] scenario_def)
  have "1 / 10 ^ 9 < pi"
    using pi_ge_two by simp
  then have far: "\<not> \<bar>(\<Sum>s\<leftarrow>slices ?c'. s_endAngle s - s_startAngle s) -
        (the (o_endAngle (options ?c')) - the (o_startAngle (options ?c')))\<bar> \<le> 1 / 10 ^ 9"
    unfolding range empty by simp
  from scenario_idle updateData_frame(2) [OF scenario_idle, where newData = "[]" and A = exact]
    idle empty range far
  show ?thesis
    by (intro conjI)
qed

text \<open>
  Claim C2, amended.  When an update that was made on an idle chart has committed,
  whatever other calls arrived while its transition ran, the chart is idle again and the
  registry holds one segment for every item of the dataset.  Every stored segment starts
  at the very value at which the segment before it ends, in the arithmetic of the code,
  whatever it is; and when the dataset is not empty, the first segment starts at the
  configured start angle and the last one ends at the configured end angle.  No bound is
  stated for the sum of the spans: in exact arithmetic it is the configured end angle
  minus the configured start angle (\<open>exact_spans_add_up\<close>), and for doubles it depends on the
  rounding of the differences.
\<close>

theorem committed_slices_chain_the_range:
  assumes "\<not> animating c" and "TimelineComplete \<notin> set es"
  shows "\<not> animating (run A (UpdateData newData # es @ [TimelineComplete]) c) \<and>
         length (slices (run A (UpdateData newData # es @ [TimelineComplete]) c)) =
           length newData \<and>
         (\<forall>i. Suc i < length (slices (run A (UpdateData newData # es @ [TimelineComplete]) c)) \<longrightarrow>
            s_startAngle (slices (run A (UpdateData newData # es @ [TimelineComplete]) c) ! Suc i) =
            s_endAngle (slices (run A (UpdateData newData # es @ [TimelineComplete]) c) ! i)) \<and>
         (newData \<noteq> [] \<longrightarrow>
            s_startAngle (slices (run A (UpdateData newData # es @ [TimelineComplete]) c) ! 0) =
              the (o_startAngle (options (run A (UpdateData newData # es @ [TimelineComplete]) c))) \<and>
            s_endAngle (last (slices (run A (UpdateData newData # es @ [TimelineComplete]) c))) =
              the (o_endAngle (options (run A (UpdateData newData # es @ [TimelineComplete]) c))))"
proof -
  let ?c' = "run A (UpdateData newData # es @ [TimelineComplete]) c"
  let ?E = "the (o_endAngle (options c))"
  let ?S = "the (o_startAngle (options c))"
  from transition_commits [OF assms(1) assms(2), where newData = newData and A = A]
  obtain new where
    new: "slices ?c' = new"
    and ids: "map s_id new = map d_id (withIds newData)"
    and angles: "map (\<lambda>s. (s_startAngle s, s_endAngle s)) new =
                   angle_pairs A ?E (n_sub A ?E ?S) ?S
                     (map (\<lambda>d. n_div A (d_value d) (total_value A newData)) newData)"
    and idle: "\<not> animating ?c'"
    and config: "o_startAngle (options ?c') = o_startAngle (options c)"
      "o_endAngle (options ?c') = o_endAngle (options c)"
    by blast
  from partition_from_pairs [OF angles ids]
  have part: "partitions_range A ?S ?E newData new" .
  then have len: "length new = length newData"
    by (simp add: partitions_range_def)
  have chain: "s_startAngle (new ! Suc i) = s_endAngle (new ! i)" if "Suc i < length new" for i
    using part that len unfolding partitions_range_def by auto
  have ends: "s_startAngle (new ! 0) = ?S \<and> s_endAngle (last new) = ?E" if "newData \<noteq> []"
  proof -
    from that len have pos: "0 < length newData" and ne: "new \<noteq> []"
      by auto
    from part pos have first: "s_startAngle (new ! 0) = ?S"
      unfolding partitions_range_def by auto
    have "length newData - 1 < length newData"
      using pos by simp
    with part have "s_endAngle (new ! (length newData - 1)) = ?E"
      unfolding partitions_range_def using pos by auto
    with ne len have "s_endAngle (last new) = ?E"
      by (simp add: last_conv_nth)
    with first show ?thesis
      by simp
  qed
  from idle len chain ends show ?thesis
    by (simp add: new config)
qed

text \<open>The theorem at the chart of the scenario.\<close>

theorem committed_slices_chain_the_range_witness:
  "\<not> animating scenario_chart \<and>
   TimelineComplete \<notin> set [UpdateEuroValue 5, UpdateData unkeyed_data] \<and>
   \<not> animating (run exact (UpdateData update_data #
       [UpdateEuroValue 5, UpdateData unkeyed_data] @ [TimelineComplete]) scenario_chart) \<and>
   Suc 0 < length (slices (run exact (UpdateData update_data #
       [UpdateEuroValue 5, UpdateData unkeyed_data] @ [TimelineComplete]) scenario_chart)) \<and>
   s_startAngle (slices (run exact (UpdateData update_data #
       [UpdateEuroValue 5, UpdateData unkeyed_data] @ [TimelineComplete]) scenario_chart) ! Suc 0) =
   s_endAngle (slices (run exact (UpdateData update_data #
       [UpdateEuroValue 5, UpdateData unkeyed_data] @ [TimelineComplete]) scenario_chart) ! 0) \<and>
   update_data \<noteq> [] \<and>
   s_startAngle (slices (run exact (UpdateData update_data #
       [UpdateEuroValue 5, UpdateData unkeyed_data] @ [TimelineComplete]) scenario_chart) ! 0) =
     - pi \<and>
   s_endAngle (last (slices (run exact (UpdateData update_data #
       [UpdateEuroValue 5, UpdateData unkeyed_data] @ [TimelineComplete]) scenario_chart))) = 0"
proof -
  let ?es = "[UpdateEuroValue 5, UpdateData unkeyed_data]"
  let ?c' = "run exact (UpdateData update_data # ?es @ [TimelineComplete]) scenario_chart"
  have 2: "TimelineComplete \<notin> set ?es"
    by simp
  have 3: "update_data \<noteq> []"
    by (simp add: update_data_def)
  note inst = committed_slices_chain_the_range
                [OF scenario_idle 2, where newData = update_data and A = exact]
  from inst have idle: "\<not> animating ?c'"
    by (rule conjunct1)
  from inst have "length (slices ?c') = length update_data"
    by blast
  then have len: "Suc 0 < length (slices ?c')"
    by (simp add: update_data_def)
  from inst len have chain: "s_startAngle (slices ?c' ! Suc 0) = s_endAngle (slices ?c' ! 0)"
    by blast
  from transition_commits [OF scenario_idle 2, where newData = update_data and A = exact]
  have config: "o_startAngle (options ?c') = o_startAngle (options scenario_chart)"
    "o_endAngle (options ?c') = o_endAngle (options scenario_chart)"
    by simp_all
  have range: "the (o_startAngle (options ?c')) = - pi" "the (o_endAngle (options ?c')) = 0"
    unfolding config by (simp_all add: constructor_fields(1) [OF scenario_constructed] scenario_def)
  from inst 3 have "s_startAngle (slices ?c' ! 0) = the (o_startAngle (options ?c'))"
    and "s_endAngle (last (slices ?c')) = the (o_endAngle (options ?c'))"
    by blast+
  then have ends: "s_startAngle (slices ?c' ! 0) = - pi" "s_endAngle (last (slices ?c')) = 0"
    unfolding range by simp_all
  from scenario_idle 2 idle len chain 3 ends show ?thesis
    by (intro conjI)
qed

text \<open>
  Claim C3, as stated, fails: \<^verbatim>\<open>updateData\<close> has no check of the total and no error
  result.  On the chart of the scenario, which is idle, the dataset with the single item
  \<open>a\<close> of value \<open>0\<close> has total \<open>0\<close>; the call starts a transition, and its completion
  replaces the two committed slices by one slice of value \<open>0\<close> over the whole range.
\<close>

theorem zero_total_update_is_accepted:
  "total_value exact zero_data \<le> 0 \<and>
   \<not> animating scenario_chart \<and>
   animating (updateData exact zero_data scenario_chart) \<and>
   map (\<lambda>s. (s_id s, s_container s, s_value s, s_startAngle s, s_endAngle s))
     (slices scenario_chart) =
     [(IdStr ''a'', 3, 30, - pi, - (7 / 10) * pi), (IdStr ''b'', 5, 70, - (7 / 10) * pi, 0)] \<and>
   map (\<lambda>s. (s_id s, s_container s, s_value s, s_startAngle s, s_endAngle s))
     (slices (run exact [UpdateData zero_data, TimelineComplete] scenario_chart)) =
     [(IdStr ''a'', 3, 0, - pi, 0)]"
  by (simp add: zero_data_def scenario_chart_def scenario_def eval_defs)

text \<open>
  Claim C3, amended.  On an idle chart every dataset is accepted, whatever its total: the
  call starts a transition with a timeline and stores the dataset with its ids completed.
  The call itself, and any call made while the transition runs, leaves the slice registry
  as it was; the completion of the timeline replaces the registry by one slice for every
  item of the dataset.
\<close>

theorem every_update_accepted_when_idle:
  assumes "\<not> animating c" and "TimelineComplete \<notin> set es"
  shows "animating (updateData A newData c) \<and>
         timeline (updateData A newData c) \<noteq> None \<and>
         o_data (options (updateData A newData c)) = withIds newData \<and>
         slices (run A (UpdateData newData # es) c) = slices c \<and>
         map s_id (slices (run A (UpdateData newData # es @ [TimelineComplete]) c)) =
           map d_id (withIds newData)"
proof -
  have busy: "animating (updateData A newData c)"
    by (rule updateData_frame(2) [OF assms(1)])
  from updateData_accepted [OF assms(1), where newData = newData and A = A]
  have tl: "timeline (updateData A newData c) \<noteq> None"
    by auto
  have data: "o_data (options (updateData A newData c)) = withIds newData"
    by (simp add: updateData_frame(3) [OF assms(1)])
  have during: "slices (run A (UpdateData newData # es) c) = slices c"
    using run_busy [OF busy assms(2)]
      updateData_frame(1) [OF assms(1), where newData = newData and A = A]
    by (simp add: run_update)
  from transition_commits [OF assms(1) assms(2), where newData = newData and A = A]
  have "map s_id (slices (run A (UpdateData newData # es @ [TimelineComplete]) c)) =
           map d_id (withIds newData)"
    by auto
  with busy tl data during show ?thesis
    by simp
qed

text \<open>The theorem at the chart of the scenario.\<close>

theorem every_update_accepted_when_idle_witness:
  "\<not> animating scenario_chart \<and>
   TimelineComplete \<notin> set [UpdateEuroValue (3 :: real)] \<and>
   animating (updateData exact zero_data scenario_chart) \<and>
   timeline (updateData exact zero_data scenario_chart) \<noteq> None \<and>
   o_data (options (updateData exact zero_data scenario_chart)) = withIds zero_data \<and>
   slices (run exact (UpdateData zero_data # [UpdateEuroValue 3]) scenario_chart) =
     slices scenario_chart \<and>
   map s_id (slices (run exact (UpdateData zero_data # [UpdateEuroValue 3] @ [TimelineComplete])
                       scenario_chart)) = map d_id (withIds zero_data)"
proof -
  have 1: "TimelineComplete \<notin> set [UpdateEuroValue (3 :: real)]"
    by simp
  from every_update_accepted_when_idle
         [OF scenario_idle 1, where newData = zero_data and A = exact] scenario_idle 1
  show ?thesis
    by blast
qed

text \<open>
  Claim C4.  A call of \<^verbatim>\<open>updateData\<close> while a transition is in progress returns the
  chart as it was: the timeline with its targets and the stored data are those of the
  running transition, and whatever happens next, in particular the completion of the
  timeline, leads to the same chart as if the call had not been made.
\<close>

theorem update_dropped_while_transitioning:
  assumes "animating c"
  shows "updateData A newData c = c \<and>
         timeline (updateData A newData c) = timeline c \<and>
         o_data (options (updateData A newData c)) = o_data (options c) \<and>
         run A es (updateData A newData c) = run A es c"
  using assms by (simp add: updateData_def)

text \<open>The theorem at the chart of the scenario.\<close>

theorem update_dropped_while_transitioning_witness:
  "animating (updateData exact update_data scenario_chart) \<and>
   updateData exact unkeyed_data (updateData exact update_data scenario_chart) =
     updateData exact update_data scenario_chart \<and>
   run exact [TimelineComplete]
       (updateData exact unkeyed_data (updateData exact update_data scenario_chart)) =
     run exact [TimelineComplete] (updateData exact update_data scenario_chart)"
proof -
  have busy: "animating (updateData exact update_data scenario_chart)"
    by (rule updateData_frame(2) [OF scenario_idle])
  from update_dropped_while_transitioning
         [OF busy, where newData = unkeyed_data and es = "[TimelineComplete]" and A = exact] busy
  show ?thesis by simp
qed

text \<open>
  Claim C5.  Let an update be made on an idle chart, and let an id have a slice in the
  registry before the update and an item in the dataset.  When the transition has
  committed, whatever other calls arrived while it ran, the slice that the registry holds
  for that id has the container that the registry held for it before, and that container
  has the parent that it had before: it was neither replaced nor detached.  The charts
  are the well-formed ones, which are all that the constructor and the events produce.
\<close>

theorem container_kept_for_continuing_id:
  assumes "wf_chart c" and "\<not> animating c" and "TimelineComplete \<notin> set es"
    and "findSlice i (slices c) = Some old"
    and "i \<in> set (map d_id (withIds newData))"
  shows "map_option s_container
           (findSlice i (slices (run A (UpdateData newData # es @ [TimelineComplete]) c))) =
           Some (s_container old) \<and>
         parent (run A (UpdateData newData # es @ [TimelineComplete]) c) (s_container old) =
           parent c (s_container old)"
proof -
  let ?c' = "run A (UpdateData newData # es @ [TimelineComplete]) c"
  from transition_commits [OF assms(2) assms(3), where newData = newData and A = A]
  obtain new where
    new: "slices ?c' = new"
    and ids: "map s_id new = map d_id (withIds newData)"
    and conts: "\<forall>n\<in>set new. container_from (slices c) (nextHandle c) n"
    and par: "\<forall>h<nextHandle c. parent ?c' h =
                (if \<exists>o'\<in>set (slices c). s_container o' = h \<and>
                      find (\<lambda>slice. strict_eq (s_id slice) (s_id o')) new = None
                 then None else parent c h)"
    by blast
  from findSlice_SomeD [OF assms(4)] have old: "old \<in> set (slices c)" and old_id: "s_id old = i"
    by simp_all
  from assms(5) have nan: "i \<noteq> IdNaN"
    by (rule withIds_not_NaN)
  from findSlice_present [of i new] assms(5) nan ids obtain n where
    n: "findSlice i new = Some n" "n \<in> set new" "s_id n = i"
    by auto
  from conts n assms(4) have same: "s_container n = s_container old"
    by (auto simp: container_from_def findSlice_def)
  from assms(1) old have below: "s_container old < nextHandle c"
    by (simp add: wf_chart_def below_def)
  have "\<not> (\<exists>o'\<in>set (slices c). s_container o' = s_container old \<and>
            find (\<lambda>slice. strict_eq (s_id slice) (s_id o')) new = None)"
  proof
    assume "\<exists>o'\<in>set (slices c). s_container o' = s_container old \<and>
            find (\<lambda>slice. strict_eq (s_id slice) (s_id o')) new = None"
    then obtain o' where o': "o' \<in> set (slices c)" "s_container o' = s_container old"
      and none: "find (\<lambda>slice. strict_eq (s_id slice) (s_id o')) new = None"
      by blast
    from assms(1) have "same_container_same_id (slices c)"
      by (simp add: wf_chart_def)
    with o' old have "s_id o' = s_id old"
      unfolding same_container_same_id_def by blast
    with none n(1) old_id show False
      by (simp add: findSlice_def)
  qed
  moreover from par below have "parent ?c' (s_container old) =
      (if \<exists>o'\<in>set (slices c). s_container o' = s_container old \<and>
            find (\<lambda>slice. strict_eq (s_id slice) (s_id o')) new = None
       then None else parent c (s_container old))"
    by blast
  ultimately have "parent ?c' (s_container old) = parent c (s_container old)"
    by (simp only: if_False)
  with n(1) same show ?thesis
    by (simp add: new)
qed

text \<open>The theorem at the chart of the scenario.\<close>

theorem container_kept_for_continuing_id_witness:
  "wf_chart scenario_chart \<and> \<not> animating scenario_chart \<and>
   TimelineComplete \<notin> set [UpdateData unkeyed_data] \<and>
   findSlice (IdStr ''a'') (slices scenario_chart) =
     Some \<lparr>s_container = 3, s_value = 30, s_startAngle = - pi, s_endAngle = - (7 * pi / 10),
           s_id = IdStr ''a''\<rparr> \<and>
   IdStr ''a'' \<in> set (map d_id (withIds update_data)) \<and>
   map_option s_container
     (findSlice (IdStr ''a'')
        (slices (run exact (UpdateData update_data # [UpdateData unkeyed_data] @ [TimelineComplete])
                   scenario_chart))) = Some 3 \<and>
   parent (run exact (UpdateData update_data # [UpdateData unkeyed_data] @ [TimelineComplete])
             scenario_chart) 3 = Some 1"
proof -
  have 1: "TimelineComplete \<notin> set [UpdateData unkeyed_data]"
    by simp
  have 2: "findSlice (IdStr ''a'') (slices scenario_chart) =
     Some \<lparr>s_container = 3, s_value = 30, s_startAngle = - pi, s_endAngle = - (7 * pi / 10),
           s_id = IdStr ''a''\<rparr>"
    by (simp add: scenario_chart_def scenario_def eval_defs)
  have 3: "IdStr ''a'' \<in> set (map d_id (withIds update_data))"
    by (simp add: update_data_def eval_defs)
  have 4: "parent scenario_chart 3 = Some 1"
    by (simp add: scenario_chart_def scenario_def eval_defs)
  from container_kept_for_continuing_id [OF scenario_wf scenario_idle 1 2 3, where A = exact]
    scenario_wf scenario_idle 1 2 3 4
  show ?thesis
    by simp
qed

text \<open>
  Claim C6.  Let an update be made on an idle chart, and let a slice of the registry have
  an id that no item of the dataset carries.  As long as the timeline has not completed,
  whatever other calls arrive, the registry is the one from before the update, so the
  slice is still there with its angles and its container, the container has the parent it
  had, and the chart is in transition.  Once the timeline completes, the registry holds
  no slice for that id and the container has no parent.
\<close>

theorem removal_deferred_to_completion:
  assumes "wf_chart c" and "\<not> animating c" and "TimelineComplete \<notin> set es"
    and "s \<in> set (slices c)"
    and "s_id s \<notin> set (map d_id (withIds newData))"
  shows "slices (run A (UpdateData newData # es) c) = slices c \<and>
         parent (run A (UpdateData newData # es) c) (s_container s) = parent c (s_container s) \<and>
         animating (run A (UpdateData newData # es) c) \<and>
         findSlice (s_id s) (slices (run A (UpdateData newData # es @ [TimelineComplete]) c)) = None \<and>
         parent (run A (UpdateData newData # es @ [TimelineComplete]) c) (s_container s) = None"
proof -
  let ?c' = "run A (UpdateData newData # es @ [TimelineComplete]) c"
  from assms(1) assms(4) have below: "s_container s < nextHandle c"
    by (simp add: wf_chart_def below_def)
  have busy: "animating (updateData A newData c)"
    by (rule updateData_frame(2) [OF assms(2)])
  note rb = run_busy [OF busy assms(3)]
  have during: "slices (run A (UpdateData newData # es) c) = slices c"
    "parent (run A (UpdateData newData # es) c) (s_container s) = parent c (s_container s)"
    "animating (run A (UpdateData newData # es) c)"
    using rb updateData_frame(1) [OF assms(2), where newData = newData and A = A]
      updateData_frame(8) [OF assms(2) below, where newData = newData and A = A]
    by (simp_all add: run_update)
  from transition_commits [OF assms(2) assms(3), where newData = newData and A = A]
  obtain new where
    new: "slices ?c' = new"
    and ids: "map s_id new = map d_id (withIds newData)"
    and par: "\<forall>h<nextHandle c. parent ?c' h =
                (if \<exists>o'\<in>set (slices c). s_container o' = h \<and>
                      find (\<lambda>slice. strict_eq (s_id slice) (s_id o')) new = None
                 then None else parent c h)"
    by blast
  from assms(5) ids have gone: "findSlice (s_id s) new = None"
    by (intro findSlice_absent) simp
  then have "\<exists>o'\<in>set (slices c). s_container o' = s_container s \<and>
                      find (\<lambda>slice. strict_eq (s_id slice) (s_id o')) new = None"
    using assms(4) by (auto simp: findSlice_def)
  moreover from par below have "parent ?c' (s_container s) =
      (if \<exists>o'\<in>set (slices c). s_container o' = s_container s \<and>
            find (\<lambda>slice. strict_eq (s_id slice) (s_id o')) new = None
       then None else parent c (s_container s))"
    by blast
  ultimately have "parent ?c' (s_container s) = None"
    by (simp only: if_True)
  with during gone show ?thesis
    by (simp add: new)
qed

text \<open>The theorem at the chart of the scenario.\<close>

theorem removal_deferred_to_completion_witness:
  "wf_chart scenario_chart \<and> \<not> animating scenario_chart \<and>
   TimelineComplete \<notin> set [UpdateEuroValue (7 :: real)] \<and>
   \<lparr>s_container = 5, s_value = 70, s_startAngle = - (7 * pi / 10), s_endAngle = 0,
     s_id = IdStr ''b''\<rparr> \<in> set (slices scenario_chart) \<and>
   IdStr ''b'' \<notin> set (map d_id (withIds update_data)) \<and>
   slices (run exact (UpdateData update_data # [UpdateEuroValue 7]) scenario_chart) =
     slices scenario_chart \<and>
   parent (run exact (UpdateData update_data # [UpdateEuroValue 7]) scenario_chart) 5 = Some 1 \<and>
   findSlice (IdStr ''b'')
     (slices (run exact (UpdateData update_data # [UpdateEuroValue 7] @ [TimelineComplete])
                scenario_chart)) = None \<and>
   parent (run exact (UpdateData update_data # [UpdateEuroValue 7] @ [TimelineComplete])
             scenario_chart) 5 = None"
proof -
  have 1: "TimelineComplete \<notin> set [UpdateEuroValue (7 :: real)]"
    by simp
  have 2: "\<lparr>s_container = 5, s_value = 70, s_startAngle = - (7 * pi / 10), s_endAngle = 0,
     s_id = IdStr ''b''\<rparr> \<in> set (slices scenario_chart)"
    by (simp add: scenario_chart_def scenario_def eval_defs)
  have 3: "s_id \<lparr>s_container = 5, s_value = 70, s_startAngle = - (7 * pi / 10), s_endAngle = 0,
     s_id = IdStr ''b''\<rparr> \<notin> set (map d_id (withIds update_data))"
    by (simp add: update_data_def eval_defs)
  have 4: "parent scenario_chart 5 = Some 1"
    by (simp add: scenario_chart_def scenario_def eval_defs)
  from removal_deferred_to_completion [OF scenario_wf scenario_idle 1 2 3, where A = exact]
    scenario_wf scenario_idle 1 2 3 4
  show ?thesis
    by simp
qed

text \<open>
  Claim C7, as stated, fails: for some angles the construction does not return.  In the
  arithmetic of the doubles the step \<open>0.03\<close> added to \<open>2\<^sup>4\<^sup>8\<close> is rounded back to
  \<open>2\<^sup>4\<^sup>8\<close>, so for the start angle and end angle \<open>2\<^sup>4\<^sup>8\<close> the condition of the outer
  loop holds at every iteration: \<^verbatim>\<open>drawDonutSlice\<close> pushes points without end and
  returns no point list.
\<close>

theorem absorbed_step_never_returns:
  "n_le binary64 (2 ^ 48) (2 ^ 48) \<and>
   n_add binary64 (2 ^ 48) (n_lit binary64 precision) = 2 ^ 48 \<and>
   drawDonutSlice binary64 100 160 (2 ^ 48) (2 ^ 48) = None"
proof -
  have le: "n_le binary64 (2 ^ 48) (2 ^ 48)"
    by (simp add: binary64_def)
  from outerArc_stuck [OF le double_step_absorbed]
  have "drawDonutSlice binary64 100 160 (2 ^ 48) (2 ^ 48) = None"
    by (simp add: drawDonutSlice_def)
  with le double_step_absorbed show ?thesis
    by (intro conjI)
qed

text \<open>
  Claim C7, amended.  Let the start angle and the end angle of a slice be the same value
  \<open>a\<close>, and let the step be effective at \<open>a\<close>: \<open>a + 0.03\<close> is not at most \<open>a\<close>, and \<open>a\<close>
  is not at most \<open>a - 0.03\<close>, in the arithmetic of the code.  Then, for every inner and
  outer radius, \<^verbatim>\<open>drawDonutSlice\<close> returns, and the path it builds is not empty and has
  its points at no more than two positions: the outer end point twice and the inner end
  point twice when \<open>a \<le> a\<close> holds, and each of them once when it does not hold, as for
  NaN.  In exact arithmetic this is so for every angle, and the path encloses the area
  \<open>0\<close>.  The step \<open>precision\<close> is the constant \<open>0.03\<close> of \<^verbatim>\<open>drawDonutSlice\<close> and not a
  parameter; what the renderer shows for such a path is not part of this code.
\<close>

theorem degenerate_slice_two_positions:
  assumes "\<not> n_le A (n_add A a (n_lit A precision)) a"
    and "\<not> n_le A a (n_sub A a (n_lit A precision))"
  shows "drawDonutSlice A innerRadius outerRadius a a =
           Some (if n_le A a a
                 then [(n_mul A (n_cos A a) outerRadius, n_mul A (n_sin A a) outerRadius),
                       (n_mul A (n_cos A a) outerRadius, n_mul A (n_sin A a) outerRadius),
                       (n_mul A (n_cos A a) innerRadius, n_mul A (n_sin A a) innerRadius),
                       (n_mul A (n_cos A a) innerRadius, n_mul A (n_sin A a) innerRadius)]
                 else [(n_mul A (n_cos A a) outerRadius, n_mul A (n_sin A a) outerRadius),
                       (n_mul A (n_cos A a) innerRadius, n_mul A (n_sin A a) innerRadius)]) \<and>
         drawDonutSlice exact r R x x =
           Some [(cos x * R, sin x * R), (cos x * R, sin x * R),
                 (cos x * r, sin x * r), (cos x * r, sin x * r)] \<and>
         polygon_area [(cos x * R, sin x * R), (cos x * R, sin x * R),
                       (cos x * r, sin x * r), (cos x * r, sin x * r)] = 0"
proof -
  have generic: "drawDonutSlice A innerRadius outerRadius a a =
           Some (if n_le A a a
                 then [(n_mul A (n_cos A a) outerRadius, n_mul A (n_sin A a) outerRadius),
                       (n_mul A (n_cos A a) outerRadius, n_mul A (n_sin A a) outerRadius),
                       (n_mul A (n_cos A a) innerRadius, n_mul A (n_sin A a) innerRadius),
                       (n_mul A (n_cos A a) innerRadius, n_mul A (n_sin A a) innerRadius)]
                 else [(n_mul A (n_cos A a) outerRadius, n_mul A (n_sin A a) outerRadius),
                       (n_mul A (n_cos A a) innerRadius, n_mul A (n_sin A a) innerRadius)])"
    by (simp add: drawDonutSlice_def outerArc_degenerate [OF assms(1)]
          innerArc_degenerate [OF assms(2)])
  have "\<not> n_le exact (n_add exact x (n_lit exact precision)) x"
    and "\<not> n_le exact x (n_sub exact x (n_lit exact precision))"
    by (simp_all add: precision_def)
  then have real: "drawDonutSlice exact r R x x =
           Some [(cos x * R, sin x * R), (cos x * R, sin x * R),
                 (cos x * r, sin x * r), (cos x * r, sin x * r)]"
    by (simp add: drawDonutSlice_def outerArc_degenerate innerArc_degenerate)
  have area: "polygon_area [(cos x * R, sin x * R), (cos x * R, sin x * R),
                       (cos x * r, sin x * r), (cos x * r, sin x * r)] = 0"
    by (simp add: polygon_area_def)
  from generic real area show ?thesis
    by (intro conjI)
qed

text \<open>The theorem in the arithmetic of the doubles, at the angle \<open>0\<close>.\<close>

theorem degenerate_slice_two_positions_witness:
  "\<not> n_le binary64 (n_add binary64 0 (n_lit binary64 precision)) 0 \<and>
   \<not> n_le binary64 0 (n_sub binary64 0 (n_lit binary64 precision)) \<and>
   drawDonutSlice binary64 100 160 0 0 =
     Some [(n_mul binary64 (n_cos binary64 0) 160, n_mul binary64 (n_sin binary64 0) 160),
           (n_mul binary64 (n_cos binary64 0) 160, n_mul binary64 (n_sin binary64 0) 160),
           (n_mul binary64 (n_cos binary64 0) 100, n_mul binary64 (n_sin binary64 0) 100),
           (n_mul binary64 (n_cos binary64 0) 100, n_mul binary64 (n_sin binary64 0) 100)]"
proof -
  have 1: "\<not> n_le binary64 (n_add binary64 0 (n_lit binary64 precision)) 0"
    unfolding double_step_from_zero by (simp add: binary64_def)
  have 2: "\<not> n_le binary64 0 (n_sub binary64 0 (n_lit binary64 precision))"
    unfolding double_step_from_zero by (simp add: binary64_def)
  have 3: "n_le binary64 0 0"
    by (simp add: binary64_def)
  from degenerate_slice_two_positions
         [OF 1 2, where innerRadius = 100 and outerRadius = 160 and r = 0 and R = 0 and x = 0]
  have "drawDonutSlice binary64 100 160 0 0 =
     Some [(n_mul binary64 (n_cos binary64 0) 160, n_mul binary64 (n_sin binary64 0) 160),
           (n_mul binary64 (n_cos binary64 0) 160, n_mul binary64 (n_sin binary64 0) 160),
           (n_mul binary64 (n_cos binary64 0) 100, n_mul binary64 (n_sin binary64 0) 100),
           (n_mul binary64 (n_cos binary64 0) 100, n_mul binary64 (n_sin binary64 0) 100)]"
    unfolding if_P [OF 3] by (rule conjunct1)
  with 1 2 show ?thesis
    by (intro conjI)
qed

text \<open>
  Claim C8, as stated, fails: the constructor validates nothing.  For the configuration
  with inner radius 160, outer radius 100 and both angles \<open>0\<close>, in exact arithmetic, it
  returns a chart with the chart container, the text label and the two slices with their
  containers, each slice spanning from \<open>0\<close> to \<open>0\<close>.
\<close>

theorem invalid_config_builds_a_chart:
  "o_outerRadius degenerate_config \<le> o_innerRadius degenerate_config \<and>
   o_startAngle degenerate_config = o_endAngle degenerate_config \<and>
   map_option chartContainer (DonutChart_constructor exact degenerate_config) = Some (Some 1) \<and>
   map_option valueText (DonutChart_constructor exact degenerate_config) = Some (Some 6) \<and>
   map_option
     (\<lambda>c. map (\<lambda>s. (s_id s, s_container s, s_value s, s_startAngle s, s_endAngle s)) (slices c))
     (DonutChart_constructor exact degenerate_config) =
     Some [(IdStr ''a'', 3, 30, 0, 0), (IdStr ''b'', 5, 70, 0, 0)]"
  by (simp add: degenerate_config_def scenario_def eval_defs)

text \<open>
  Claim C8, amended.  The constructor checks neither the radii nor the angles, and it has
  no error result.  For every configuration it draws the segments of its partition one
  after the other, and it returns a chart exactly when \<^verbatim>\<open>drawDonutSlice\<close> returns
  for each of them.  A chart that it returns has the chart container and the text label,
  both attached to the stage, one slice for every item of the data, under the item's id,
  with the item's value and with the angles of its segment, and the radii as they were
  given.
\<close>

theorem constructor_validates_nothing:
  "(DonutChart_constructor A opts \<noteq> None) =
     (\<forall>p\<in>set (segments_of A opts).
        drawDonutSlice A (o_innerRadius opts) (o_outerRadius opts) (fst p) (snd p) \<noteq> None) \<and>
   (\<forall>c. DonutChart_constructor A opts = Some c \<longrightarrow>
        chartContainer c = Some (Suc stage) \<and>
        parent c (Suc stage) = Some stage \<and>
        valueText c = Some (Suc (Suc stage) + 2 * length (o_data opts)) \<and>
        parent c (Suc (Suc stage) + 2 * length (o_data opts)) = Some stage \<and>
        map s_id (slices c) = map d_id (withIds (o_data opts)) \<and>
        map s_value (slices c) = map d_value (o_data opts) \<and>
        map (\<lambda>s. (s_startAngle s, s_endAngle s)) (slices c) = segments_of A opts \<and>
        o_innerRadius (options c) = o_innerRadius opts \<and>
        o_outerRadius (options c) = o_outerRadius opts)"
proof (intro conjI allI impI)
  show "(DonutChart_constructor A opts \<noteq> None) =
     (\<forall>p\<in>set (segments_of A opts).
        drawDonutSlice A (o_innerRadius opts) (o_outerRadius opts) (fst p) (snd p) \<noteq> None)"
  proof
    assume "DonutChart_constructor A opts \<noteq> None"
    then obtain c where "DonutChart_constructor A opts = Some c"
      by auto
    then show "\<forall>p\<in>set (segments_of A opts).
        drawDonutSlice A (o_innerRadius opts) (o_outerRadius opts) (fst p) (snd p) \<noteq> None"
      by (rule constructor_drawn)
  next
    assume "\<forall>p\<in>set (segments_of A opts).
        drawDonutSlice A (o_innerRadius opts) (o_outerRadius opts) (fst p) (snd p) \<noteq> None"
    from constructor_returns [OF this] show "DonutChart_constructor A opts \<noteq> None"
      by auto
  qed
next
  fix c
  assume c: "DonutChart_constructor A opts = Some c"
  show "chartContainer c = Some (Suc stage)"
    by (rule constructor_fields(2) [OF c])
  show "parent c (Suc stage) = Some stage"
    by (rule constructor_fields(7) [OF c])
  show "valueText c = Some (Suc (Suc stage) + 2 * length (o_data opts))"
    by (rule constructor_fields(3) [OF c])
  show "parent c (Suc (Suc stage) + 2 * length (o_data opts)) = Some stage"
    by (rule constructor_fields(8) [OF c])
  show "map s_id (slices c) = map d_id (withIds (o_data opts))"
    by (rule constructor_slices(1) [OF c])
  show "map s_value (slices c) = map d_value (o_data opts)"
    by (rule constructor_slices(2) [OF c])
  show "map (\<lambda>s. (s_startAngle s, s_endAngle s)) (slices c) = segments_of A opts"
    by (rule constructor_slices(3) [OF c])
  show "o_innerRadius (options c) = o_innerRadius opts"
    by (simp add: constructor_fields(1) [OF c])
  show "o_outerRadius (options c) = o_outerRadius opts"
    by (simp add: constructor_fields(1) [OF c])
qed

text \<open>The theorem at the configuration of the counterexample.\<close>

theorem constructor_validates_nothing_witness:
  "segments_of exact degenerate_config = [(0, 0), (0, 0)] \<and>
   drawDonutSlice exact (o_innerRadius degenerate_config) (o_outerRadius degenerate_config) 0 0
     \<noteq> None \<and>
   DonutChart_constructor exact degenerate_config \<noteq> None \<and>
   chartContainer (the (DonutChart_constructor exact degenerate_config)) = Some 1 \<and>
   valueText (the (DonutChart_constructor exact degenerate_config)) = Some 6 \<and>
   map s_id (slices (the (DonutChart_constructor exact degenerate_config))) =
     [IdStr ''a'', IdStr ''b''] \<and>
   map (\<lambda>s. (s_startAngle s, s_endAngle s))
     (slices (the (DonutChart_constructor exact degenerate_config))) = [(0, 0), (0, 0)] \<and>
   o_innerRadius (options (the (DonutChart_constructor exact degenerate_config))) = 160 \<and>
   o_outerRadius (options (the (DonutChart_constructor exact degenerate_config))) = 100"
proof -
  let ?c = "the (DonutChart_constructor exact degenerate_config)"
  have segs: "segments_of exact degenerate_config = [(0, 0), (0, 0)]"
    by (simp add: segments_of_def degenerate_config_def scenario_def total_value_def)
  have draws: "drawDonutSlice exact (o_innerRadius degenerate_config)
                 (o_outerRadius degenerate_config) 0 0 \<noteq> None"
    by (simp add: drawDonutSlice_exact)
  have hyp: "\<forall>p\<in>set (segments_of exact degenerate_config).
               drawDonutSlice exact (o_innerRadius degenerate_config)
                 (o_outerRadius degenerate_config) (fst p) (snd p) \<noteq> None"
    by (simp add: drawDonutSlice_exact)
  note inst = constructor_validates_nothing [where A = exact and opts = degenerate_config]
  from inst hyp have built: "DonutChart_constructor exact degenerate_config \<noteq> None"
    by blast
  then have c: "DonutChart_constructor exact degenerate_config = Some ?c"
    by simp
  from inst c have
    "chartContainer ?c = Some (Suc stage)"
    "valueText ?c = Some (Suc (Suc stage) + 2 * length (o_data degenerate_config))"
    "map s_id (slices ?c) = map d_id (withIds (o_data degenerate_config))"
    "map (\<lambda>s. (s_startAngle s, s_endAngle s)) (slices ?c) = segments_of exact degenerate_config"
    "o_innerRadius (options ?c) = o_innerRadius degenerate_config"
    "o_outerRadius (options ?c) = o_outerRadius degenerate_config"
    by blast+
  then have fields: "chartContainer ?c = Some 1" "valueText ?c = Some 6"
    "map s_id (slices ?c) = [IdStr ''a'', IdStr ''b'']"
    "map (\<lambda>s. (s_startAngle s, s_endAngle s)) (slices ?c) = [(0, 0), (0, 0)]"
    "o_innerRadius (options ?c) = 160" "o_outerRadius (options ?c) = 100"
    unfolding segs
    by (simp_all add: degenerate_config_def scenario_def stage_def withIds_def ensureId_def
          enumerate_eq_zip)
  from segs draws built fields show ?thesis
    by (intro conjI)
qed

text \<open>
  Claim C9, as stated, fails: no occurrence of a repeated id wins.  On the chart of the
  scenario, in exact arithmetic, the dataset with the items \<open>a\<close> of value 10 and \<open>a\<close> of
  value 30 commits two slices of the id \<open>a\<close>, and neither of them carries the value 30 of
  the last occurrence; the lookup of \<open>a\<close> finds the first of them, which spans the first
  quarter of the range and not the three quarters of the last occurrence.
\<close>

theorem last_duplicate_does_not_win:
  "map (\<lambda>s. (s_id s, s_value s, s_startAngle s, s_endAngle s))
     (slices (run exact [UpdateData duplicate_data, TimelineComplete] scenario_chart)) =
     [(IdStr ''a'', 10, - pi, - (3 / 4) * pi), (IdStr ''a'', 10, - (3 / 4) * pi, 0)] \<and>
   findSlice (IdStr ''a'')
     (slices (run exact [UpdateData duplicate_data, TimelineComplete] scenario_chart)) =
     Some \<lparr>s_container = 3, s_value = 10, s_startAngle = - pi, s_endAngle = - (3 / 4) * pi,
           s_id = IdStr ''a''\<rparr>"
  by (simp add: duplicate_data_def scenario_chart_def scenario_def eval_defs)

text \<open>
  Claim C9, amended.  An update on an idle chart is not a failure when ids repeat: the
  call is accepted and starts a transition, and the committed registry keeps one slice for
  every item of the dataset, repeated ids included, in the order of the dataset, each
  under the id of its item and with the angles of its own position in the partition of
  the range.  No occurrence of an id replaces another one.
\<close>

theorem every_item_keeps_its_slice:
  assumes "\<not> animating c" and "TimelineComplete \<notin> set es"
  shows "animating (updateData A newData c) \<and>
         timeline (updateData A newData c) \<noteq> None \<and>
         partitions_range A (the (o_startAngle (options c))) (the (o_endAngle (options c)))
           newData (slices (run A (UpdateData newData # es @ [TimelineComplete]) c))"
proof -
  let ?c' = "run A (UpdateData newData # es @ [TimelineComplete]) c"
  have busy: "animating (updateData A newData c)"
    by (rule updateData_frame(2) [OF assms(1)])
  from updateData_accepted [OF assms(1), where newData = newData and A = A]
  have tl: "timeline (updateData A newData c) \<noteq> None"
    by auto
  from transition_commits [OF assms(1) assms(2), where newData = newData and A = A]
  obtain new where
    new: "slices ?c' = new"
    and ids: "map s_id new = map d_id (withIds newData)"
    and angles: "map (\<lambda>s. (s_startAngle s, s_endAngle s)) new =
             angle_pairs A (the (o_endAngle (options c)))
               (n_sub A (the (o_endAngle (options c))) (the (o_startAngle (options c))))
               (the (o_startAngle (options c)))
               (map (\<lambda>d. n_div A (d_value d) (total_value A newData)) newData)"
    by blast
  from partition_from_pairs [OF angles ids] busy tl show ?thesis
    by (simp add: new)
qed

text \<open>The theorem at the dataset of the counterexample.\<close>

theorem every_item_keeps_its_slice_witness:
  "\<not> animating scenario_chart \<and> TimelineComplete \<notin> set ([] :: real event list) \<and>
   animating (updateData exact duplicate_data scenario_chart) \<and>
   timeline (updateData exact duplicate_data scenario_chart) \<noteq> None \<and>
   partitions_range exact (- pi) 0 duplicate_data
     (slices (run exact (UpdateData duplicate_data # [] @ [TimelineComplete]) scenario_chart))"
proof -
  have 2: "TimelineComplete \<notin> set ([] :: real event list)"
    by simp
  have 4: "the (o_startAngle (options scenario_chart)) = - pi"
    "the (o_endAngle (options scenario_chart)) = 0"
    by (simp_all add: constructor_fields(1) [OF scenario_constructed] scenario_def)
  from every_item_keeps_its_slice
         [OF scenario_idle 2, where newData = duplicate_data and A = exact]
    scenario_idle 2
  show ?thesis
    unfolding 4 by (intro conjI) simp_all
qed

text \<open>
  Claim C10.  The data that a chart built by the constructor and an accepted
  \<^verbatim>\<open>updateData\<close> store are the given items with their ids completed by position: an item
  whose id is missing, \<open>0\<close>, the empty string or NaN (the falsy ids) gets the id \<open>slice-\<close>
  followed by its index, and every other item keeps its id; value and colour are kept in
  both cases.
\<close>

theorem falsy_ids_rekeyed_by_position:
  "(DonutChart_constructor A opts = Some c' \<longrightarrow> o_data (options c') = withIds (o_data opts)) \<and>
   (\<not> animating c \<longrightarrow> o_data (options (updateData A newData c)) = withIds newData) \<and>
   (i < length data \<longrightarrow>
      withIds data ! i =
        (data ! i)\<lparr>d_id :=
           (if d_id (data ! i) \<in> {Undefined, IdNum 0, IdStr [], IdNaN}
            then IdStr (''slice-'' @ decimal i) else d_id (data ! i))\<rparr>)"
proof -
  have "falsy x = (x \<in> {Undefined, IdNum 0, IdStr [], IdNaN})" for x
    by (cases x) auto
  then show ?thesis
    by (simp add: constructor_fields(1) updateData_frame(3) nth_withIds ensureId_def)
qed

text \<open>The theorem at the chart of the scenario.\<close>

theorem falsy_ids_rekeyed_by_position_witness:
  "DonutChart_constructor exact scenario = Some scenario_chart \<and>
   o_data (options scenario_chart) = withIds (o_data scenario) \<and>
   \<not> animating scenario_chart \<and>
   o_data (options (updateData exact unkeyed_data scenario_chart)) = withIds unkeyed_data \<and>
   1 < length unkeyed_data \<and>
   withIds unkeyed_data ! 1 = \<lparr>d_value = 2, d_color = 2, d_id = IdStr ''slice-1''\<rparr>"
proof -
  have i: "1 < length unkeyed_data"
    by (simp add: unkeyed_data_def)
  from falsy_ids_rekeyed_by_position
         [where A = exact and opts = scenario and c' = scenario_chart and c = scenario_chart
            and newData = unkeyed_data and i = 1 and data = unkeyed_data]
       scenario_constructed scenario_idle i
  show ?thesis
    by (simp add: unkeyed_data_def decimal.simps)
qed

end
